theory Spec2Isabelle
  imports Main
begin

section \<open>Strings\<close>

text \<open>
  Go strings are modelled as lists of characters (bytes). The functions of package
  \<^verbatim>\<open>strings\<close> that the router calls are written out.
\<close>

definition HasPrefix :: "string \<Rightarrow> string \<Rightarrow> bool" where
  "HasPrefix s p = (take (length p) s = p)"

definition HasSuffix :: "string \<Rightarrow> string \<Rightarrow> bool" where
  "HasSuffix s suf = (length suf \<le> length s \<and> drop (length s - length suf) s = suf)"

definition TrimPrefix :: "string \<Rightarrow> string \<Rightarrow> string" where
  "TrimPrefix s p = (if HasPrefix s p then drop (length p) s else s)"

fun Contains :: "string \<Rightarrow> string \<Rightarrow> bool" where
  "Contains [] sub = (sub = [])"
| "Contains (c # s) sub = (HasPrefix (c # s) sub \<or> Contains s sub)"

text \<open>\<^verbatim>\<open>strings.Replace(s, old, new, 1)\<close>: the first occurrence only.\<close>

fun Replace1 :: "string \<Rightarrow> string \<Rightarrow> string \<Rightarrow> string" where
  "Replace1 [] old new = (if old = [] then new else [])"
| "Replace1 (c # s) old new =
     (if HasPrefix (c # s) old then new @ drop (length old) (c # s)
      else c # Replace1 s old new)"

section \<open>Regular expressions (package regexp)\<close>

text \<open>
  The router hands pattern strings to \<^verbatim>\<open>regexp.MustCompile\<close> and uses
  \<^verbatim>\<open>MatchString\<close> and \<^verbatim>\<open>FindAllStringSubmatch\<close>. The library is modelled
  for the fragment of its syntax that the router's own patterns are written in: literals,
  \<^verbatim>\<open>.\<close> (any character but line feed), bracket classes of characters and ranges,
  \<^verbatim>\<open>\s \d \w\<close>, escaped punctuation, \<^verbatim>\<open>^\<close> and \<^verbatim>\<open>$\<close> (begin and end of
  text), greedy and lazy \<^verbatim>\<open>* + ?\<close>, alternation, capturing groups and
  \<^verbatim>\<open>(?:...)\<close>. Matching is leftmost-first, as a backtracking matcher finds it.
  A pattern outside the fragment compiles to \<open>OutsideFragment\<close>; a pattern the library
  rejects compiles to \<open>SyntaxError\<close> (\<^verbatim>\<open>MustCompile\<close> panics).
  Characters are bytes: the model agrees with the library on ASCII text.
\<close>

datatype re =
    Eps
  | Lit char
  | Dot
  | Cls bool "(char \<times> char) list"
  | Bol
  | Eol
  | Seq re re
  | Alt re re
  | Star bool re
  | Plus bool re
  | Opt bool re
  | Grp nat re

datatype compile_error = SyntaxError | OutsideFragment

record regexp =
  prog :: re
  numcap :: nat

subsection \<open>Lexical structure\<close>

datatype token =
    TAtom re
  | TStar
  | TPlus
  | TQuest
  | TBar
  | TOpen bool
  | TClose
  | TErr compile_error

definition bs :: char where
  "bs = CHR 0x5C"

definition dq :: char where
  "dq = CHR 0x22"

definition lf :: char where
  "lf = CHR 0x0A"

definition in_range :: "char \<Rightarrow> char \<times> char \<Rightarrow> bool" where
  "in_range c r = ((of_char (fst r) :: nat) \<le> of_char c \<and> (of_char c :: nat) \<le> of_char (snd r))"

definition is_alnum :: "char \<Rightarrow> bool" where
  "is_alnum c = (in_range c (CHR ''0'', CHR ''9'') \<or> in_range c (CHR ''A'', CHR ''Z'')
     \<or> in_range c (CHR ''a'', CHR ''z''))"

definition space_class :: "(char \<times> char) list" where
  "space_class = [(CHR 0x09, CHR 0x0A), (CHR 0x0C, CHR 0x0D), (CHR '' '', CHR '' '')]"

definition digit_class :: "(char \<times> char) list" where
  "digit_class = [(CHR ''0'', CHR ''9'')]"

definition word_class :: "(char \<times> char) list" where
  "word_class = [(CHR ''0'', CHR ''9''), (CHR ''A'', CHR ''Z''), (CHR ''_'', CHR ''_''),
     (CHR ''a'', CHR ''z'')]"

definition escape :: "char \<Rightarrow> token" where
  "escape e =
     (if e = CHR ''s'' then TAtom (Cls False space_class)
      else if e = CHR ''d'' then TAtom (Cls False digit_class)
      else if e = CHR ''w'' then TAtom (Cls False word_class)
      else if is_alnum e \<or> \<not> (of_char e :: nat) < 128 then TErr OutsideFragment
      else TAtom (Lit e))"

definition class_bad :: "char \<Rightarrow> bool" where
  "class_bad c = (c = bs \<or> c = CHR ''['' \<or> c = CHR ''-'')"

fun class_items :: "string \<Rightarrow> (char \<times> char) list option" where
  "class_items [] = Some []"
| "class_items (a # b # c # s) =
     (if class_bad a then None
      else if b = CHR ''-'' then
        (if class_bad c \<or> \<not> (of_char a :: nat) \<le> of_char c then None
         else map_option ((#) (a, c)) (class_items s))
      else map_option ((#) (a, a)) (class_items (b # c # s)))"
| "class_items (a # s) =
     (if class_bad a then None else map_option ((#) (a, a)) (class_items s))"

function lex :: "string \<Rightarrow> token list" where
  "lex [] = []"
| "lex (c # s) =
     (if c = bs then
        (case s of [] \<Rightarrow> [TErr SyntaxError] | e # s' \<Rightarrow> escape e # lex s')
      else if c = CHR ''['' then
        (let neg = HasPrefix s ''^'';
             body = (if neg then drop 1 s else s);
             items = takeWhile (\<lambda>x. x \<noteq> CHR '']'') body;
             rest = dropWhile (\<lambda>x. x \<noteq> CHR '']'') body
         in if rest = [] then [TErr SyntaxError]
            else if items = [] then [TErr OutsideFragment]
            else (case class_items items of
                    None \<Rightarrow> [TErr OutsideFragment]
                  | Some rs \<Rightarrow> TAtom (Cls neg rs) # lex (drop 1 rest)))
      else if c = CHR ''('' then
        (if HasPrefix s ''?:'' then TOpen False # lex (drop 2 s)
         else if HasPrefix s ''?'' then [TErr OutsideFragment]
         else TOpen True # lex s)
      else if c = CHR '')'' then TClose # lex s
      else if c = CHR ''|'' then TBar # lex s
      else if c = CHR ''*'' then TStar # lex s
      else if c = CHR ''+'' then TPlus # lex s
      else if c = CHR ''?'' then TQuest # lex s
      else if c = CHR ''.'' then TAtom Dot # lex s
      else if c = CHR ''^'' then TAtom Bol # lex s
      else if c = CHR ''$'' then TAtom Eol # lex s
      else if c = CHR ''{'' \<and> s \<noteq> [] \<and> in_range (hd s) (CHR ''0'', CHR ''9'')
        then [TErr OutsideFragment]
      else TAtom (Lit c) # lex s)"
  by pat_completeness auto
termination
proof (relation "measure length")
  fix c :: char and s :: string and neg body items rest rs
  assume "neg = HasPrefix s ''^''" "body = (if neg then drop 1 s else s)"
    "rest = dropWhile (\<lambda>x. x \<noteq> CHR '']'') body"
  then have "length rest \<le> length s"
    using length_dropWhile_le [of "\<lambda>x. x \<noteq> CHR '']''" body]
    by (auto split: if_splits)
  then show "(drop 1 rest, c # s) \<in> measure length" by simp
qed auto

subsection \<open>Parsing\<close>

text \<open>
  One frame per open group: the group's capture index (none for \<^verbatim>\<open>(?:\<close> and for the
  outermost level), the alternatives finished so far and the atoms of the current
  concatenation, both most recent first.
\<close>

type_synonym frame = "nat option \<times> re list \<times> re list"

datatype prevkind = PNone | PRep | PLazy

type_synonym pstate = "frame list \<times> nat \<times> prevkind"

definition mkseq :: "re list \<Rightarrow> re" where
  "mkseq xs = foldr Seq xs Eps"

fun mkalt :: "re list \<Rightarrow> re" where
  "mkalt [] = Eps"
| "mkalt [x] = x"
| "mkalt (x # xs) = Alt x (mkalt xs)"

definition close_frame :: "re list \<Rightarrow> re list \<Rightarrow> re" where
  "close_frame alts cur = mkalt (rev (mkseq (rev cur) # alts))"

fun set_lazy :: "re \<Rightarrow> re" where
  "set_lazy (Star g x) = Star False x"
| "set_lazy (Plus g x) = Plus False x"
| "set_lazy (Opt g x) = Opt False x"
| "set_lazy x = x"

fun repeatable :: "re \<Rightarrow> bool" where
  "repeatable Bol = False"
| "repeatable Eol = False"
| "repeatable x = True"

definition apply_rep :: "(re \<Rightarrow> re) \<Rightarrow> pstate \<Rightarrow> compile_error + pstate" where
  "apply_rep mk st =
     (case st of
        ((cap, alts, x # cur) # stk, n, PNone) \<Rightarrow>
          (if repeatable x then Inr ((cap, alts, mk x # cur) # stk, n, PRep)
           else Inl OutsideFragment)
      | _ \<Rightarrow> Inl SyntaxError)"

fun parse_step :: "token \<Rightarrow> pstate \<Rightarrow> compile_error + pstate" where
  "parse_step (TErr e) st = Inl e"
| "parse_step (TAtom a) ((cap, alts, cur) # stk, n, p) = Inr ((cap, alts, a # cur) # stk, n, PNone)"
| "parse_step TStar st = apply_rep (Star True) st"
| "parse_step TPlus st = apply_rep (Plus True) st"
| "parse_step TQuest ((cap, alts, x # cur) # stk, n, PRep) =
     Inr ((cap, alts, set_lazy x # cur) # stk, n, PLazy)"
| "parse_step TQuest st = apply_rep (Opt True) st"
| "parse_step TBar ((cap, alts, cur) # stk, n, p) =
     Inr ((cap, mkseq (rev cur) # alts, []) # stk, n, PNone)"
| "parse_step (TOpen True) (stk, n, p) = Inr ((Some (Suc n), [], []) # stk, Suc n, PNone)"
| "parse_step (TOpen False) (stk, n, p) = Inr ((None, [], []) # stk, n, PNone)"
| "parse_step TClose ((cap, alts, cur) # (cap', alts', cur') # stk, n, p) =
     (let body = close_frame alts cur;
          g = (case cap of None \<Rightarrow> body | Some i \<Rightarrow> Grp i body)
      in Inr ((cap', alts', g # cur') # stk, n, PNone))"
| "parse_step t st = Inl SyntaxError"

fun parse_toks :: "token list \<Rightarrow> pstate \<Rightarrow> compile_error + pstate" where
  "parse_toks [] st = Inr st"
| "parse_toks (t # ts) st =
     (case parse_step t st of Inl e \<Rightarrow> Inl e | Inr st' \<Rightarrow> parse_toks ts st')"

definition Compile :: "string \<Rightarrow> compile_error + regexp" where
  "Compile src =
     (case parse_toks (lex src) ([(None, [], [])], 0, PNone) of
        Inl e \<Rightarrow> Inl e
      | Inr (stk, n, p) \<Rightarrow>
          (case stk of
             [(cap, alts, cur)] \<Rightarrow> Inr \<lparr>prog = close_frame alts cur, numcap = n\<rparr>
           | _ \<Rightarrow> Inl SyntaxError))"

subsection \<open>Matching\<close>

text \<open>
  A matcher state: whether the position is the beginning of the text, the text that
  remains, and the text of each capture group so far. \<open>steps r st\<close> lists the states
  in which a match of \<open>r\<close> from \<open>st\<close> can end, in the order of preference of a
  backtracking matcher, so the head is the leftmost-first match. An iteration of a
  repetition that consumes nothing is not taken.
\<close>

type_synonym mstate = "bool \<times> string \<times> string option list"

definition remaining :: "mstate \<Rightarrow> string" where
  "remaining st = fst (snd st)"

fun accepts :: "re \<Rightarrow> char \<Rightarrow> bool" where
  "accepts (Lit a) c = (c = a)"
| "accepts Dot c = (c \<noteq> lf)"
| "accepts (Cls neg rs) c = (list_ex (in_range c) rs \<noteq> neg)"
| "accepts r c = False"

definition one :: "re \<Rightarrow> mstate \<Rightarrow> mstate list" where
  "one a st =
     (case remaining st of
        [] \<Rightarrow> []
      | c # t \<Rightarrow> if accepts a c then [(False, t, snd (snd st))] else [])"

primrec rep_loop :: "bool \<Rightarrow> (mstate \<Rightarrow> mstate list) \<Rightarrow> nat \<Rightarrow> mstate \<Rightarrow> mstate list" where
  "rep_loop g f 0 st = [st]"
| "rep_loop g f (Suc n) st =
     (let more = concat (map (\<lambda>st'. if length (remaining st') < length (remaining st)
                                      then rep_loop g f n st' else []) (f st))
      in if g then more @ [st] else st # more)"

definition capture :: "nat \<Rightarrow> mstate \<Rightarrow> mstate \<Rightarrow> mstate" where
  "capture i st st' =
     (fst st', remaining st',
      (snd (snd st'))[i - 1 := Some (take (length (remaining st) - length (remaining st'))
                                         (remaining st))])"

primrec steps :: "re \<Rightarrow> mstate \<Rightarrow> mstate list" where
  "steps Eps = (\<lambda>st. [st])"
| "steps (Lit a) = one (Lit a)"
| "steps Dot = one Dot"
| "steps (Cls neg rs) = one (Cls neg rs)"
| "steps Bol = (\<lambda>st. if fst st then [st] else [])"
| "steps Eol = (\<lambda>st. if remaining st = [] then [st] else [])"
| "steps (Seq a b) = (\<lambda>st. concat (map (steps b) (steps a st)))"
| "steps (Alt a b) = (\<lambda>st. steps a st @ steps b st)"
| "steps (Star g a) = (\<lambda>st. rep_loop g (steps a) (length (remaining st)) st)"
| "steps (Plus g a) =
     (\<lambda>st. concat (map (\<lambda>st'. rep_loop g (steps a) (length (remaining st')) st') (steps a st)))"
| "steps (Opt g a) = (\<lambda>st. if g then steps a st @ [st] else st # steps a st)"
| "steps (Grp i a) = (\<lambda>st. map (capture i st) (steps a st))"

text \<open>
  A match at the current position: the matched text, the captures (the empty string for
  a group that took no part, as \<^verbatim>\<open>FindAllStringSubmatch\<close> reports it).
\<close>

definition match_here :: "regexp \<Rightarrow> bool \<Rightarrow> string \<Rightarrow> (string \<times> string list) option" where
  "match_here rx b s =
     (case steps (prog rx) (b, s, replicate (numcap rx) None) of
        [] \<Rightarrow> None
      | st # _ \<Rightarrow> Some (take (length s - length (remaining st)) s,
                         map (case_option [] id) (snd (snd st))))"

fun find_from :: "regexp \<Rightarrow> bool \<Rightarrow> string \<Rightarrow> (string \<times> string list) option" where
  "find_from rx b [] = match_here rx b []"
| "find_from rx b (c # s) =
     (case match_here rx b (c # s) of
        Some m \<Rightarrow> Some m
      | None \<Rightarrow> find_from rx False s)"

definition MatchString :: "regexp \<Rightarrow> string \<Rightarrow> bool" where
  "MatchString rx s = (find_from rx True s \<noteq> None)"

text \<open>
  \<^verbatim>\<open>FindAllStringSubmatch(s, -1)\<close>: the successive leftmost matches that do not
  overlap, each as the matched text followed by the captures. \<open>k\<close> counts the characters
  still inside the previous match; \<open>p\<close> says that the previous match ended at the
  current position, where an empty match is then dropped.
\<close>

fun find_all :: "regexp \<Rightarrow> bool \<Rightarrow> nat \<Rightarrow> bool \<Rightarrow> string \<Rightarrow> string list list" where
  "find_all rx b (Suc k) p (c # s) = find_all rx False k (k = 0) s"
| "find_all rx b (Suc k) p [] = []"
| "find_all rx b 0 p [] =
     (case match_here rx b [] of
        None \<Rightarrow> []
      | Some (w, caps) \<Rightarrow> if p then [] else [w # caps])"
| "find_all rx b 0 p (c # s) =
     (case match_here rx b (c # s) of
        None \<Rightarrow> find_all rx False 0 False s
      | Some (w, caps) \<Rightarrow>
          if w = [] then (if p then [] else [w # caps]) @ find_all rx False 0 False s
          else (w # caps) # find_all rx False (length w - 1) (length w = 1) s)"

definition FindAllStringSubmatch :: "regexp \<Rightarrow> string \<Rightarrow> string list list" where
  "FindAllStringSubmatch rx s = find_all rx True 0 False s"


section \<open>Paths (package path)\<close>

text \<open>
  \<^verbatim>\<open>path.Clean\<close> by its documented rules: slashes collapse, \<^verbatim>\<open>.\<close> elements go,
  an inner \<^verbatim>\<open>..\<close> goes with the element before it, a \<^verbatim>\<open>..\<close> at the root goes,
  and the empty result is \<^verbatim>\<open>.\<close>.
\<close>

fun split_slash :: "string \<Rightarrow> string \<Rightarrow> string list" where
  "split_slash acc [] = [rev acc]"
| "split_slash acc (c # s) =
     (if c = CHR ''/'' then rev acc # split_slash [] s else split_slash (c # acc) s)"

fun join_slash :: "string list \<Rightarrow> string" where
  "join_slash [] = []"
| "join_slash [x] = x"
| "join_slash (x # xs) = x @ ''/'' @ join_slash xs"

fun clean_elems :: "bool \<Rightarrow> string list \<Rightarrow> string list \<Rightarrow> string list" where
  "clean_elems rooted stk [] = rev stk"
| "clean_elems rooted stk (e # es) =
     (if e = [] \<or> e = ''.'' then clean_elems rooted stk es
      else if e = ''..'' then
        (case stk of
           [] \<Rightarrow> if rooted then clean_elems rooted [] es else clean_elems rooted [''..''] es
         | e' # below \<Rightarrow>
             if e' = ''..'' then clean_elems rooted (''..'' # stk) es
             else clean_elems rooted below es)
      else clean_elems rooted (e # stk) es)"

definition Clean :: "string \<Rightarrow> string" where
  "Clean p =
     (if p = [] then ''.''
      else let rooted = HasPrefix p ''/'';
               out = join_slash (clean_elems rooted [] (split_slash [] p))
           in if rooted then CHR ''/'' # out else if out = [] then ''.'' else out)"

definition Join :: "string list \<Rightarrow> string" where
  "Join elems =
     (let used = filter (\<lambda>e. e \<noteq> []) elems
      in if used = [] then [] else Clean (join_slash used))"

definition Dir_of :: "string \<Rightarrow> string" where
  "Dir_of p = Clean (rev (dropWhile (\<lambda>c. c \<noteq> CHR ''/'') (rev p)))"

definition Ext :: "string \<Rightarrow> string" where
  "Ext p =
     (let last_elem = rev (takeWhile (\<lambda>c. c \<noteq> CHR ''/'') (rev p))
      in if CHR ''.'' \<in> set last_elem
         then CHR ''.'' # rev (takeWhile (\<lambda>c. c \<noteq> CHR ''.'') (rev last_elem))
         else [])"

text \<open>\<^verbatim>\<open>path.Base\<close>: the last element, trailing slashes apart.\<close>

definition Base :: "string \<Rightarrow> string" where
  "Base p =
     (if p = [] then ''.''
      else let q = rev (dropWhile (\<lambda>c. c = CHR ''/'') (rev p));
               e = rev (takeWhile (\<lambda>c. c \<noteq> CHR ''/'') (rev q))
           in if e = [] then ''/'' else e)"

section \<open>Errors and the environment\<close>

text \<open>
  Go error values, as far as the preprocessor meets them: the error numbers of a failed
  \<^verbatim>\<open>os.ReadFile\<close> inside its \<^verbatim>\<open>*fs.PathError\<close>, the sentinel
  \<^verbatim>\<open>fs.ErrNotExist\<close>, and the plain error that \<^verbatim>\<open>fmt.Errorf\<close> builds from a
  format without \<^verbatim>\<open>%w\<close> (the message only: nothing to unwrap).
\<close>

datatype go_error =
    ENOENT
  | EACCES
  | EISDIR
  | ErrNotExist
  | PathError string string go_error
  | errorString string

fun Error_text :: "go_error \<Rightarrow> string" where
  "Error_text ENOENT = ''no such file or directory''"
| "Error_text EACCES = ''permission denied''"
| "Error_text EISDIR = ''is a directory''"
| "Error_text ErrNotExist = ''file does not exist''"
| "Error_text (PathError op p e) = op @ '' '' @ p @ '': '' @ Error_text e"
| "Error_text (errorString s) = s"

text \<open>
  \<^verbatim>\<open>errors.Is\<close>: the error itself, its own \<^verbatim>\<open>Is\<close> method (an error number
  \<open>ENOENT\<close> is \<^verbatim>\<open>fs.ErrNotExist\<close>), then whatever it unwraps to.
\<close>

fun errors_Is :: "go_error \<Rightarrow> go_error \<Rightarrow> bool" where
  "errors_Is (PathError op p e) target =
     (PathError op p e = target \<or> errors_Is e target)"
| "errors_Is ENOENT target = (target = ENOENT \<or> target = ErrNotExist)"
| "errors_Is e target = (e = target)"

datatype panic =
    CompilePanic compile_error
  | NilDereference
  | IndexOutOfRange nat nat
  | SliceBounds nat nat

record world =
  ReadFile :: "string \<Rightarrow> go_error + string"
  Stat_ok :: "string \<Rightarrow> bool"
  Getenv :: "string \<Rightarrow> string"

section \<open>The router\<close>

datatype callback =
    Default404
  | Default500
  | StaticDirHandler string
  | StaticFileHandler string
  | UserHandler nat

text \<open>
  A route; \<open>pattern\<close> is \<open>None\<close> for the nil pointer of the two fallback routes,
  and \<open>route_method\<close> is the field \<^verbatim>\<open>method\<close>.
  Route pointers are modelled by the routes they point to.
\<close>

record route =
  pattern :: "regexp option"
  callback :: callback
  params :: "string list"
  route_method :: string

record router =
  routes :: "route list"
  lateRoutes :: "route list"
  route404 :: route
  route500 :: route
  routeCache :: "string \<rightharpoonup> route"
  htmlCache :: "string \<rightharpoonup> string"
  noCache :: bool
  htmlDisabled :: bool

record Data =
  Params :: "string \<rightharpoonup> string"
  URLPath :: string
  Method :: string
  status :: nat
  HTML :: string

subsection \<open>parsePattern, Dir, createRoute\<close>

text \<open>The source text of \<^verbatim>\<open>@+(.+?)(?:/|\)|$)\<close> and its compiled form.\<close>

definition placeholder_src :: string where
  "placeholder_src = ''@+(.+?)(?:/|'' @ [bs] @ '')|$)''"

definition placeholder_rx :: regexp where
  "placeholder_rx =
     \<lparr>prog = Seq (Plus True (Lit (CHR ''@'')))
               (Seq (Grp 1 (Seq (Plus False Dot) Eps))
                 (Seq (Alt (Seq (Lit (CHR ''/'')) Eps)
                        (Alt (Seq (Lit (CHR '')'')) Eps) (Seq Eol Eps)))
                   Eps)),
      numcap = 1\<rparr>"

definition strip_slash :: "string \<Rightarrow> string" where
  "strip_slash str =
     (if str \<noteq> ''/'' \<and> HasSuffix str ''/'' then take (length str - 1) str else str)"

definition replace_placeholder :: "string \<times> string list \<Rightarrow> string list \<Rightarrow> string \<times> string list" where
  "replace_placeholder acc match =
     (let name = match ! 1;
          str1 = Replace1 (fst acc) (''@@'' @ name) ''(.+)'';
          str2 = Replace1 str1 (''@'' @ name) ''([^/]+)''
      in (str2, snd acc @ [name]))"

definition parsePattern :: "string \<Rightarrow> string \<times> string list" where
  "parsePattern str0 =
     (let str = strip_slash str0;
          res = (if Contains str ''@''
                 then foldl replace_placeholder (str, [])
                        (FindAllStringSubmatch placeholder_rx str)
                 else (str, []))
      in (''^'' @ fst res @ ''$'', snd res))"

definition Dir :: "string \<Rightarrow> string" where
  "Dir str = strip_slash str @ ''(?:/?@@path)?''"

definition createRoute :: "router \<Rightarrow> string \<Rightarrow> callback \<Rightarrow> string \<Rightarrow> bool \<Rightarrow> panic + router" where
  "createRoute r str cb mthd late =
     (let pp = parsePattern str
      in case Compile (fst pp) of
           Inl e \<Rightarrow> Inl (CompilePanic e)
         | Inr rx \<Rightarrow>
             (let rt = \<lparr>pattern = Some rx, callback = cb, params = snd pp, route_method = mthd\<rparr>
              in Inr (if late then r\<lparr>lateRoutes := lateRoutes r @ [rt]\<rparr>
                      else r\<lparr>routes := routes r @ [rt]\<rparr>)))"

definition Route :: "router \<Rightarrow> string \<Rightarrow> string \<Rightarrow> callback \<Rightarrow> panic + router" where
  "Route r mthd str cb = createRoute r str cb mthd False"

definition LateRoute :: "router \<Rightarrow> string \<Rightarrow> string \<Rightarrow> callback \<Rightarrow> panic + router" where
  "LateRoute r mthd str cb = createRoute r str cb mthd True"

definition NewRouter :: "world \<Rightarrow> router" where
  "NewRouter w =
     \<lparr>routes = [], lateRoutes = [],
      route404 = \<lparr>pattern = None, callback = Default404, params = [], route_method = []\<rparr>,
      route500 = \<lparr>pattern = None, callback = Default500, params = [], route_method = []\<rparr>,
      routeCache = Map.empty, htmlCache = Map.empty,
      noCache = (Getenv w ''NOCACHE'' = ''1''),
      htmlDisabled = (Getenv w ''NOHTML'' = ''1'')\<rparr>"

subsection \<open>callRoute\<close>

text \<open>
  The part of \<^verbatim>\<open>callRoute\<close> before the callback runs: the parameters are read off the
  first match of the route's pattern on the path, and the fallback routes force their
  status. The path of the request is the normalized path, as \<^verbatim>\<open>ServeHTTP\<close> has set
  it before the call.
\<close>

fun assign_params :: "string list \<Rightarrow> nat \<Rightarrow> string list \<Rightarrow> (string \<rightharpoonup> string) \<Rightarrow> panic + (string \<rightharpoonup> string)" where
  "assign_params names num [] p = Inr p"
| "assign_params names num (v # vs) p =
     (if num < length names then assign_params names (Suc num) vs (p(names ! num \<mapsto> v))
      else Inl (IndexOutOfRange num (length names)))"

definition extract_params :: "route \<Rightarrow> string \<Rightarrow> panic + (string \<rightharpoonup> string)" where
  "extract_params rt url =
     (if length (params rt) > 0 then
        (case pattern rt of
           None \<Rightarrow> Inl NilDereference
         | Some rx \<Rightarrow>
             (case FindAllStringSubmatch rx url of
                [] \<Rightarrow> Inl (IndexOutOfRange 0 0)
              | m # _ \<Rightarrow> assign_params (params rt) 0 (drop 1 m) Map.empty))
      else Inr Map.empty)"

definition callRoute :: "router \<Rightarrow> route \<Rightarrow> string \<Rightarrow> string \<Rightarrow> panic + Data" where
  "callRoute r rt url mthd =
     (case extract_params rt url of
        Inl e \<Rightarrow> Inl e
      | Inr p \<Rightarrow>
          Inr \<lparr>Params = p, URLPath = url, Method = mthd,
               status = (if rt = route404 r then 404 else if rt = route500 r then 500 else 200),
               HTML = []\<rparr>)"

subsection \<open>ServeHTTP\<close>

definition writeCache :: "router \<Rightarrow> string \<Rightarrow> route \<Rightarrow> router" where
  "writeCache r cacheName rt = r\<lparr>routeCache := (routeCache r)(cacheName \<mapsto> rt)\<rparr>"

text \<open>One of the two loops of \<^verbatim>\<open>ServeHTTP\<close> over a tier: the first route that matches.\<close>

fun scan_routes :: "route list \<Rightarrow> string \<Rightarrow> string \<Rightarrow> panic + route option" where
  "scan_routes [] mthd url = Inr None"
| "scan_routes (rt # rts) mthd url =
     (if route_method rt = mthd then
        (case pattern rt of
           None \<Rightarrow> Inl NilDereference
         | Some rx \<Rightarrow> if MatchString rx url then Inr (Some rt) else scan_routes rts mthd url)
      else scan_routes rts mthd url)"

datatype branch = CacheHit | PrimaryScan | LateScan | NotFoundFallback

text \<open>
  \<^verbatim>\<open>ServeHTTP\<close> up to its call of \<^verbatim>\<open>callRoute\<close>: the router after the cache
  write, the route that is called, and the branch that chose it.
\<close>

definition ServeHTTP :: "router \<Rightarrow> string \<Rightarrow> string \<Rightarrow> panic + (router \<times> route \<times> branch)" where
  "ServeHTTP r mthd path =
     (let url = Clean path; cacheName = mthd @ '' '' @ url
      in case (if noCache r then None else routeCache r cacheName) of
           Some rt \<Rightarrow> Inr (r, rt, CacheHit)
         | None \<Rightarrow>
             (case scan_routes (routes r) mthd url of
                Inl e \<Rightarrow> Inl e
              | Inr (Some rt) \<Rightarrow> Inr (writeCache r cacheName rt, rt, PrimaryScan)
              | Inr None \<Rightarrow>
                  (case scan_routes (lateRoutes r) mthd url of
                     Inl e \<Rightarrow> Inl e
                   | Inr (Some rt) \<Rightarrow> Inr (writeCache r cacheName rt, rt, LateScan)
                   | Inr None \<Rightarrow>
                       Inr (writeCache r cacheName (route404 r), route404 r, NotFoundFallback))))"

text \<open>\<^verbatim>\<open>Data.NotFound\<close>: the cache write before the not-found route is called.\<close>

definition NotFound :: "router \<Rightarrow> string \<Rightarrow> string \<Rightarrow> router" where
  "NotFound r mthd path = writeCache r (mthd @ '' '' @ Clean path) (route404 r)"

subsection \<open>ClearCache, EmptyCache, RemoveRoute\<close>

definition delete_matching :: "regexp \<Rightarrow> (string \<rightharpoonup> 'v) \<Rightarrow> (string \<rightharpoonup> 'v)" where
  "delete_matching rx m = (\<lambda>k. if MatchString rx k then None else m k)"

definition ClearCache :: "router \<Rightarrow> string \<Rightarrow> panic + router" where
  "ClearCache r str =
     (case Compile (fst (parsePattern (''[A-Z]+ '' @ str))) of
        Inl e \<Rightarrow> Inl (CompilePanic e)
      | Inr rx \<Rightarrow>
          Inr (r\<lparr>routeCache := delete_matching rx (routeCache r),
                 htmlCache := delete_matching rx (htmlCache r)\<rparr>))"

definition EmptyCache :: "router \<Rightarrow> router" where
  "EmptyCache r = r\<lparr>routeCache := Map.empty, htmlCache := Map.empty\<rparr>"

text \<open>
  \<^verbatim>\<open>RemoveRoute\<close> ranges over the slice it had at the start while it assigns
  \<^verbatim>\<open>append(router.routes[:i], router.routes[i+1:]...)\<close> to the field. The \<open>append\<close>
  writes into the array that the range still reads: \<open>arr\<close> is that array (as long as the
  slice was at the start), \<open>routes r\<close> is the current slice, a prefix of it.
  \<^verbatim>\<open>routes[:i]\<close> may reach past the current length, up to the capacity;
  \<^verbatim>\<open>routes[i+1:]\<close> panics when \<open>i + 1\<close> exceeds the current length.
\<close>

fun remove_loop :: "string \<Rightarrow> nat list \<Rightarrow> route list \<Rightarrow> router \<Rightarrow> panic + router" where
  "remove_loop str [] arr r = Inr r"
| "remove_loop str (i # is) arr r =
     (case pattern (arr ! i) of
        None \<Rightarrow> Inl NilDereference
      | Some rx \<Rightarrow>
          if MatchString rx str then
            (if length (routes r) < i + 1 then Inl (SliceBounds (i + 1) (length (routes r)))
             else let new = take i arr @ drop (i + 1) (routes r);
                      arr' = new @ drop (length new) arr
                  in case ClearCache (r\<lparr>routes := new\<rparr>) str of
                       Inl e \<Rightarrow> Inl e
                     | Inr r' \<Rightarrow> remove_loop str is arr' r')
          else remove_loop str is arr r)"

definition RemoveRoute :: "router \<Rightarrow> string \<Rightarrow> panic + router" where
  "RemoveRoute r str = remove_loop str [0..<length (routes r)] (routes r) r"


section \<open>The markup preprocessor\<close>

text \<open>
  The source texts of \<^verbatim>\<open><!--\s*include "(.+?\.html)"\s*-->\<close> and of
  \<^verbatim>\<open><!--\s*if (!)?\$(.+?)\s+{\s*(.+)\s*}\s*-->\<close>, and their compiled forms.
\<close>

definition include_src :: string where
  "include_src = ''<!--'' @ [bs] @ ''s*include '' @ [dq] @ ''(.+?'' @ [bs] @ ''.html)'' @ [dq]
     @ [bs] @ ''s*-->''"

definition cond_src :: string where
  "cond_src = ''<!--'' @ [bs] @ ''s*if (!)?'' @ [bs] @ ''$(.+?)'' @ [bs] @ ''s+{'' @ [bs]
     @ ''s*(.+)'' @ [bs] @ ''s*}'' @ [bs] @ ''s*-->''"

definition spaces :: "bool \<Rightarrow> re" where
  "spaces some = (if some then Plus True (Cls False space_class)
                  else Star True (Cls False space_class))"

definition include_rx :: regexp where
  "include_rx =
     \<lparr>prog = mkseq (map Lit ''<!--'' @ [spaces False] @ map Lit ''include '' @ [Lit dq,
               Grp 1 (mkseq (Plus False Dot # map Lit ''.html'')), Lit dq, spaces False]
               @ map Lit ''-->''),
      numcap = 1\<rparr>"

definition cond_rx :: regexp where
  "cond_rx =
     \<lparr>prog = mkseq (map Lit ''<!--'' @ [spaces False] @ map Lit ''if ''
               @ [Opt True (Grp 1 (mkseq [Lit (CHR ''!'')])), Lit (CHR ''$''),
                  Grp 2 (mkseq [Plus False Dot]), spaces True, Lit (CHR ''{''), spaces False,
                  Grp 3 (mkseq [Plus True Dot]), spaces False, Lit (CHR ''}''), spaces False]
               @ map Lit ''-->''),
      numcap = 3\<rparr>"

definition readHTMLFile :: "world \<Rightarrow> string \<Rightarrow> go_error + string" where
  "readHTMLFile w fn = ReadFile w (TrimPrefix fn ''/'')"

text \<open>
  The loop over the include tags of the text; \<open>rec\<close> is \<open>parseHTML\<close> itself, for the
  text of the included file. A result \<open>None\<close> is a call that has not returned.
\<close>

fun include_loop :: "(string \<Rightarrow> string \<Rightarrow> (go_error + string) option) \<Rightarrow> world \<Rightarrow> string
    \<Rightarrow> string list list \<Rightarrow> string \<Rightarrow> (go_error + string) option" where
  "include_loop rec w parentDir [] str = Some (Inr str)"
| "include_loop rec w parentDir (match # ms) str =
     (let tag = match ! 0; incl = match ! 1
      in case readHTMLFile w (Join [parentDir, incl]) of
           Inl err \<Rightarrow> Some (Inl (errorString (''unreadable include '' @ Error_text err)))
         | Inr body \<Rightarrow>
             (case rec body (Join [parentDir, Dir_of incl]) of
                None \<Rightarrow> None
              | Some (Inl err) \<Rightarrow> Some (Inl err)
              | Some (Inr contents) \<Rightarrow>
                  include_loop rec w parentDir ms (Replace1 str tag contents)))"

fun cond_loop :: "world \<Rightarrow> string list list \<Rightarrow> string \<Rightarrow> string" where
  "cond_loop w [] str = str"
| "cond_loop w (match # ms) str =
     (let tag = match ! 0; invchar = match ! 1; varname = match ! 2; text = match ! 3;
          invert = (invchar = ''!'');
          hasEnv = (Getenv w varname \<noteq> []);
          contents = (if (\<not> invert \<and> hasEnv) \<or> (invert \<and> \<not> hasEnv) then text else [])
      in cond_loop w ms (Replace1 str tag contents))"

text \<open>
  \<open>parseHTML\<close> calls itself on every included file, and a file that includes itself
  never lets it return; the first argument bounds the depth of the calls.
\<close>

primrec parseHTML :: "nat \<Rightarrow> world \<Rightarrow> string \<Rightarrow> string \<Rightarrow> (go_error + string) option" where
  "parseHTML 0 w = (\<lambda>str parentDir. None)"
| "parseHTML (Suc n) w =
     (\<lambda>str parentDir.
        case include_loop (parseHTML n w) w parentDir (FindAllStringSubmatch include_rx str) str of
          None \<Rightarrow> None
        | Some (Inl err) \<Rightarrow> Some (Inl err)
        | Some (Inr str') \<Rightarrow>
            Some (Inr (cond_loop w (FindAllStringSubmatch cond_rx str') str')))"

text \<open>
  What a handler or the preprocessor does with the response: it writes text, hands the
  request to the file server, or calls \<^verbatim>\<open>Data.NotFound\<close> or \<^verbatim>\<open>Data.Error\<close>
  (the not-found and the server-error fallback).
\<close>

datatype outcome =
    Wrote string
  | FileServed string
  | CalledNotFound
  | CalledError go_error

definition serveHTML :: "nat \<Rightarrow> world \<Rightarrow> router \<Rightarrow> Data \<Rightarrow> bool \<Rightarrow> string \<Rightarrow> string
    \<Rightarrow> (router \<times> outcome) option" where
  "serveHTML fuel w r d static text dir =
     (let url = URLPath d
      in case (if static \<and> \<not> noCache r then htmlCache r url else None) of
           Some html \<Rightarrow> Some (r, Wrote html)
         | None \<Rightarrow>
             (case parseHTML fuel w text dir of
                None \<Rightarrow> None
              | Some (Inl err) \<Rightarrow>
                  if errors_Is err ErrNotExist
                  then Some (NotFound r (Method d) (URLPath d), CalledNotFound)
                  else Some (r, CalledError err)
              | Some (Inr str) \<Rightarrow>
                  Some (if static then r\<lparr>htmlCache := (htmlCache r)(url \<mapsto> str)\<rparr> else r,
                        Wrote str)))"

definition serveHTMLStatic :: "nat \<Rightarrow> world \<Rightarrow> router \<Rightarrow> Data \<Rightarrow> string \<Rightarrow> string
    \<Rightarrow> (router \<times> outcome) option" where
  "serveHTMLStatic fuel w r d dir fn =
     (case readHTMLFile w (Join [dir, fn]) of
        Inl err \<Rightarrow>
          Some (r, CalledError (errorString (''unreadable static include '' @ Error_text err)))
      | Inr body \<Rightarrow> serveHTML fuel w r d True body dir)"

subsection \<open>StaticDir\<close>

definition rewrite_path :: "Data \<Rightarrow> Data" where
  "rewrite_path d =
     (case Params d ''path'' of
        Some v \<Rightarrow> d\<lparr>URLPath := ''/'' @ v\<rparr>
      | None \<Rightarrow> d)"

definition index_path :: "world \<Rightarrow> router \<Rightarrow> string \<Rightarrow> Data \<Rightarrow> Data" where
  "index_path w r dir d =
     (if \<not> htmlDisabled r \<and> Ext (URLPath d) = []
         \<and> Stat_ok w (Join [dir, URLPath d, ''index.html''])
      then d\<lparr>URLPath := Join [URLPath d, ''index.html'']\<rparr>
      else d)"

definition StaticDir :: "nat \<Rightarrow> world \<Rightarrow> router \<Rightarrow> string \<Rightarrow> Data
    \<Rightarrow> (Data \<times> router \<times> outcome) option" where
  "StaticDir fuel w r dir d0 =
     (let d = index_path w r dir (rewrite_path d0)
      in if \<not> htmlDisabled r \<and> HasSuffix (URLPath d) ''.html''
         then map_option (Pair d) (serveHTMLStatic fuel w r d dir (URLPath d))
         else if \<not> Stat_ok w (Join [dir, URLPath d])
           then Some (d, NotFound r (Method d) (URLPath d), CalledNotFound)
           else Some (d, r, FileServed (URLPath d)))"


subsection \<open>StaticFile\<close>

text \<open>The handler that \<^verbatim>\<open>StaticFile\<close> returns for the file name \<open>fn\<close>.\<close>

definition StaticFile :: "nat \<Rightarrow> world \<Rightarrow> router \<Rightarrow> string \<Rightarrow> Data
    \<Rightarrow> (Data \<times> router \<times> outcome) option" where
  "StaticFile fuel w r fn d0 =
     (if \<not> htmlDisabled r \<and> HasSuffix fn ''.html''
      then (let d = d0\<lparr>URLPath := Base fn\<rparr>
            in map_option (Pair d) (serveHTMLStatic fuel w r d (Dir_of fn) (URLPath d)))
      else if \<not> Stat_ok w fn
        then Some (d0, r, CalledError (errorString ''static file mapped to nonexistent file''))
        else Some (d0, r, FileServed fn))"

subsection \<open>Handlers, and a dispatch as a whole\<close>

text \<open>
  A handler that an application registers is Go code of the application. Of a run of it
  the model keeps what reaches the router: its calls of \<^verbatim>\<open>Data.NotFound\<close> and
  \<^verbatim>\<open>Data.Error\<close>, in order, and the markup it leaves in \<^verbatim>\<open>Data.HTML\<close> when it
  returns. (It registers and removes no route and clears no cache.) What it does may
  depend on the \<open>Data\<close> it is given.
\<close>

datatype signal = SignalNotFound | SignalError

type_synonym handlers = "nat \<Rightarrow> Data \<Rightarrow> signal list \<times> string"

text \<open>
  A run of a route ends with the router as it leaves it, the path of the request (the
  handlers of the package rewrite it, and the nested calls share the request), the keys
  that calls of \<^verbatim>\<open>Data.NotFound\<close> have written to the request cache, and the panic
  that ended the run, if one did. No value: the fuel did not suffice.
\<close>

type_synonym run = "(router \<times> string \<times> string list \<times> panic option) option"

text \<open>One part of a run after another; a panic ends the run where it is.\<close>

definition and_then :: "run \<Rightarrow> (router \<Rightarrow> string \<Rightarrow> run) \<Rightarrow> run" where
  "and_then x f =
     (case x of
        None \<Rightarrow> None
      | Some (r, p, ks, Some e) \<Rightarrow> Some (r, p, ks, Some e)
      | Some (r, p, ks, None) \<Rightarrow>
          (case f r p of
             None \<Rightarrow> None
           | Some (r', p', ks', e) \<Rightarrow> Some (r', p', ks @ ks', e)))"

text \<open>
  What follows a call of \<^verbatim>\<open>Data.NotFound\<close> or \<^verbatim>\<open>Data.Error\<close>:
  \<^verbatim>\<open>callRoute\<close> on the fallback route, with the path of the request as it is then,
  normalized. The router \<open>r\<close> holds the cache write of \<^verbatim>\<open>Data.NotFound\<close> already;
  \<^verbatim>\<open>Data.Error\<close> writes nothing.
\<close>

definition fallback :: "(router \<Rightarrow> route \<Rightarrow> string \<Rightarrow> string \<Rightarrow> string \<Rightarrow> run)
    \<Rightarrow> router \<Rightarrow> Data \<Rightarrow> outcome \<Rightarrow> run" where
  "fallback call r d out =
     (case out of
        CalledNotFound \<Rightarrow>
          and_then (Some (r, URLPath d, [Method d @ '' '' @ Clean (URLPath d)], None))
            (\<lambda>r' p. call r' (route404 r') (Clean p) p (Method d))
      | CalledError e \<Rightarrow> call r (route500 r) (Clean (URLPath d)) (URLPath d) (Method d)
      | Wrote s \<Rightarrow> Some (r, URLPath d, [], None)
      | FileServed f \<Rightarrow> Some (r, URLPath d, [], None))"

text \<open>The signals of an application's handler, in order.\<close>

fun run_signals :: "(router \<Rightarrow> route \<Rightarrow> string \<Rightarrow> string \<Rightarrow> string \<Rightarrow> run)
    \<Rightarrow> Data \<Rightarrow> signal list \<Rightarrow> router \<Rightarrow> string \<Rightarrow> run" where
  "run_signals call d [] r p = Some (r, p, [], None)"
| "run_signals call d (SignalNotFound # ss) r p =
     and_then (fallback call (NotFound r (Method d) p) (d\<lparr>URLPath := p\<rparr>) CalledNotFound)
       (run_signals call d ss)"
| "run_signals call d (SignalError # ss) r p =
     and_then (fallback call r (d\<lparr>URLPath := p\<rparr>) (CalledError (errorString ''handler'')))
       (run_signals call d ss)"

text \<open>
  The callback of a route, run on the \<open>Data\<close> that \<^verbatim>\<open>callRoute\<close> has built. The
  handlers of the package leave \<^verbatim>\<open>Data.HTML\<close> empty; after a handler of the
  application, \<^verbatim>\<open>callRoute\<close> renders the markup that the handler has left there.
\<close>

definition run_callback :: "(router \<Rightarrow> route \<Rightarrow> string \<Rightarrow> string \<Rightarrow> string \<Rightarrow> run)
    \<Rightarrow> nat \<Rightarrow> world \<Rightarrow> handlers \<Rightarrow> router \<Rightarrow> callback \<Rightarrow> Data \<Rightarrow> run" where
  "run_callback call fuel w user r cb d =
     (case cb of
        Default404 \<Rightarrow> Some (r, URLPath d, [], None)
      | Default500 \<Rightarrow> Some (r, URLPath d, [], None)
      | StaticDirHandler dir \<Rightarrow>
          (case StaticDir fuel w r dir d of
             None \<Rightarrow> None
           | Some (d', r', out) \<Rightarrow> fallback call r' d' out)
      | StaticFileHandler fn \<Rightarrow>
          (case StaticFile fuel w r fn d of
             None \<Rightarrow> None
           | Some (d', r', out) \<Rightarrow> fallback call r' d' out)
      | UserHandler k \<Rightarrow>
          and_then (run_signals call d (fst (user k d)) r (URLPath d))
            (\<lambda>r' p. let html = snd (user k d)
               in if html = [] then Some (r', p, [], None)
                  else (case serveHTML fuel w r' (d\<lparr>URLPath := p, HTML := html\<rparr>) False html ''/'' of
                          None \<Rightarrow> None
                        | Some (r'', out) \<Rightarrow> fallback call r'' (d\<lparr>URLPath := p\<rparr>) out)))"

text \<open>
  \<^verbatim>\<open>callRoute\<close> with the run of the callback. \<^verbatim>\<open>Data.NotFound\<close> and
  \<^verbatim>\<open>Data.Error\<close> call \<^verbatim>\<open>callRoute\<close> again: the fuel bounds the depth of these
  calls, and the depth of the includes.
\<close>

primrec run_route :: "nat \<Rightarrow> world \<Rightarrow> handlers \<Rightarrow> router \<Rightarrow> route \<Rightarrow> string \<Rightarrow> string \<Rightarrow> string
    \<Rightarrow> run" where
  "run_route 0 w user = (\<lambda>r rt url reqpath mthd. None)"
| "run_route (Suc n) w user =
     (\<lambda>r rt url reqpath mthd.
        case callRoute r rt url mthd of
          Inl e \<Rightarrow> Some (r, reqpath, [], Some e)
        | Inr d \<Rightarrow>
            run_callback (run_route n w user) n w user r (callback rt) (d\<lparr>URLPath := reqpath\<rparr>))"

text \<open>
  \<^verbatim>\<open>ServeHTTP\<close> as a whole: the route selection, then the run of the selected route
  on the normalized path. A panic of the selection leaves no route; otherwise the result
  holds the router after the run, the route, the branch that selected it, and the keys
  and the panic of the run.
\<close>

definition dispatch :: "nat \<Rightarrow> world \<Rightarrow> handlers \<Rightarrow> router \<Rightarrow> string \<Rightarrow> string
    \<Rightarrow> (panic + router \<times> route \<times> branch \<times> string list \<times> panic option) option" where
  "dispatch n w user r mthd path =
     (case ServeHTTP r mthd path of
        Inl e \<Rightarrow> Some (Inl e)
      | Inr (r1, rt, b) \<Rightarrow>
          (case run_route n w user r1 rt (Clean path) (Clean path) mthd of
             None \<Rightarrow> None
           | Some (r2, p, ks, e) \<Rightarrow> Some (Inr (r2, rt, b, ks, e))))"


section \<open>Inputs and notions for the properties\<close>

text \<open>
  A world without files, with a given environment; an environment that sets only
  \<^verbatim>\<open>DEV=1\<close>; a text that includes a file that is not there.
\<close>

definition bare_world :: "(string \<Rightarrow> string) \<Rightarrow> world" where
  "bare_world env =
     \<lparr>ReadFile = (\<lambda>p. Inl (PathError ''open'' p ENOENT)), Stat_ok = (\<lambda>p. False),
      Getenv = env\<rparr>"

definition dev_set :: "string \<Rightarrow> string" where
  "dev_set v = (if v = ''DEV'' then ''1'' else [])"

definition missing_include :: string where
  "missing_include = ''<!-- include '' @ [dq] @ ''missing.html'' @ [dq] @ '' -->''"

text \<open>A sequence of \<^verbatim>\<open>Route\<close> calls, in order.\<close>

fun register :: "router \<Rightarrow> (string \<times> string \<times> callback) list \<Rightarrow> panic + router" where
  "register r [] = Inr r"
| "register r ((mthd, str, cb) # xs) =
     (case Route r mthd str cb of Inl e \<Rightarrow> Inl e | Inr r' \<Rightarrow> register r' xs)"

text \<open>
  The matcher of a string without operators: every character stands for itself, but
  \<^verbatim>\<open>.\<close> for any character of a line.
\<close>

definition atom :: "char \<Rightarrow> re" where
  "atom c = (if c = CHR ''.'' then Dot else Lit c)"

text \<open>What \<^verbatim>\<open>ClearCache("/index.html")\<close> compiles.\<close>

definition index_clear_rx :: regexp where
  "index_clear_rx =
     \<lparr>prog = mkseq (Bol # Plus True (Cls False [(CHR ''A'', CHR ''Z'')])
               # map atom '' /index.html'' @ [Eol]),
      numcap = 0\<rparr>"

text \<open>
  A route answers a request when its method is the request's and its matcher matches the
  normalized path.
\<close>

definition route_matches :: "string \<Rightarrow> string \<Rightarrow> route \<Rightarrow> bool" where
  "route_matches mthd url rt =
     (route_method rt = mthd \<and> (case pattern rt of None \<Rightarrow> False | Some rx \<Rightarrow> MatchString rx url))"

text \<open>
  Two primary routes that overlap on \<^verbatim>\<open>/a/b\<close> and a late wildcard route.
\<close>

definition example_router :: router where
  "example_router =
     (case register (NewRouter (bare_world (\<lambda>v. [])))
             [(''GET'', ''/a/@x'', UserHandler 1), (''GET'', ''/a/b'', UserHandler 2)] of
        Inl e \<Rightarrow> NewRouter (bare_world (\<lambda>v. []))
      | Inr r \<Rightarrow>
          (case LateRoute r ''GET'' ''/@@rest'' (UserHandler 3) of
             Inl e \<Rightarrow> r
           | Inr r' \<Rightarrow> r'))"

text \<open>
  \<open>thread r K\<close> continues every match of \<open>r\<close> with \<open>K\<close>, in order: the way the
  matcher treats a concatenation.
\<close>

definition thread :: "re \<Rightarrow> (mstate \<Rightarrow> mstate list) \<Rightarrow> mstate \<Rightarrow> mstate list" where
  "thread r K st = concat (map K (steps r st))"

definition is_upper :: "char \<Rightarrow> bool" where
  "is_upper c = in_range c (CHR ''A'', CHR ''Z'')"

text \<open>What \<^verbatim>\<open>ClearCache("/users/@name")\<close> compiles.\<close>

definition users_clear_rx :: regexp where
  "users_clear_rx =
     \<lparr>prog = mkseq (Bol # Plus True (Cls False [(CHR ''A'', CHR ''Z'')])
               # map Lit '' /users/''
               @ [Grp 1 (mkseq [Plus True (Cls True [(CHR ''/'', CHR ''/'')])]), Eol]),
      numcap = 1\<rparr>"

text \<open>
  A key of the request cache for a path \<^verbatim>\<open>/users/\<close> and one segment: upper-case
  letters, a blank, the path.
\<close>

definition users_key :: "string \<Rightarrow> bool" where
  "users_key k =
     (let m = takeWhile is_upper k; rest = dropWhile is_upper k
      in m \<noteq> [] \<and> take 8 rest = '' /users/'' \<and> drop 8 rest \<noteq> []
         \<and> CHR ''/'' \<notin> set (drop 8 rest))"

text \<open>
  A mount prefix is a literal path: its characters are no operators of the pattern
  syntax (a dot, which matches itself among others, is allowed) and no placeholder sign.
\<close>

definition plain_char :: "char \<Rightarrow> bool" where
  "plain_char c = (c \<notin> set (bs # ''+*?()|[]{}^$@''))"

text \<open>What the route string of \<^verbatim>\<open>Dir\<close> compiles to, for the prefix \<open>p\<close>.\<close>

definition dir_rx :: "string \<Rightarrow> regexp" where
  "dir_rx p =
     \<lparr>prog = mkseq (Bol # map atom p
               @ [Opt True (mkseq [Opt True (Lit (CHR ''/'')), Grp 1 (mkseq [Plus True Dot])]),
                  Eol]),
      numcap = 1\<rparr>"

text \<open>What \<open>ClearCache\<close> compiles for a literal path \<open>q\<close>.\<close>

definition clear_rx :: "string \<Rightarrow> regexp" where
  "clear_rx q =
     \<lparr>prog = mkseq (Bol # Plus True (Cls False [(CHR ''A'', CHR ''Z'')]) # Lit (CHR '' '')
               # map atom q @ [Eol]),
      numcap = 0\<rparr>"

text \<open>
  Two dispatches of the same request, the second from the router that the first has left:
  the route and the branch of each, when both return.
\<close>

definition dispatch_twice :: "nat \<Rightarrow> world \<Rightarrow> handlers \<Rightarrow> router \<Rightarrow> string \<Rightarrow> string
    \<Rightarrow> (panic + (route \<times> branch) \<times> (route \<times> branch)) option" where
  "dispatch_twice n w user r mthd path =
     (case dispatch n w user r mthd path of
        None \<Rightarrow> None
      | Some (Inl e) \<Rightarrow> Some (Inl e)
      | Some (Inr (r2, rt, b, ks, Some e)) \<Rightarrow> Some (Inl e)
      | Some (Inr (r2, rt, b, ks, None)) \<Rightarrow>
          (case dispatch n w user r2 mthd path of
             None \<Rightarrow> None
           | Some (Inl e) \<Rightarrow> Some (Inl e)
           | Some (Inr (r3, rt', b', ks', Some e)) \<Rightarrow> Some (Inl e)
           | Some (Inr (r3, rt', b', ks', None)) \<Rightarrow> Some (Inr ((rt, b), (rt', b')))))"

text \<open>
  Handlers of the application that call \<^verbatim>\<open>Data.NotFound\<close> once and return, and
  handlers that return at once.
\<close>

definition signals_not_found :: handlers where
  "signals_not_found k d = ([SignalNotFound], [])"

definition silent :: handlers where
  "silent k d = ([], [])"

text \<open>
  A world without files and with an empty environment; a router with the directory
  \<^verbatim>\<open>./static\<close> mounted at the root, and one with the directory mounted at
  \<^verbatim>\<open>/assets\<close>.
\<close>

definition empty_world :: world where
  "empty_world = bare_world (\<lambda>v. [])"

definition root_mount :: router where
  "root_mount =
     (case Route (NewRouter empty_world) ''GET'' (Dir ''/'') (StaticDirHandler ''./static'') of
        Inl e \<Rightarrow> NewRouter empty_world
      | Inr r \<Rightarrow> r)"

definition assets_mount :: router where
  "assets_mount =
     (case Route (NewRouter empty_world) ''GET'' (Dir ''/assets'') (StaticDirHandler ''./static'') of
        Inl e \<Rightarrow> NewRouter empty_world
      | Inr r \<Rightarrow> r)"

text \<open>
  What the run of a route changes of a router, as far as the route selection reads it:
  the request cache holds the not-found fallback at the keys \<open>ks\<close>, and nothing else
  has changed. The same for one handler of the package with its outcome.
\<close>

definition effect :: "router \<Rightarrow> router \<Rightarrow> string list \<Rightarrow> bool" where
  "effect r r' ks \<longleftrightarrow>
     noCache r' = noCache r \<and> route404 r' = route404 r \<and> route500 r' = route500 r
     \<and> (\<forall>k. routeCache r' k = (if k \<in> set ks then Some (route404 r) else routeCache r k))"

definition library_effect :: "router \<Rightarrow> router \<Rightarrow> Data \<Rightarrow> outcome \<Rightarrow> bool" where
  "library_effect r r' d out \<longleftrightarrow>
     noCache r' = noCache r \<and> route404 r' = route404 r \<and> route500 r' = route500 r
     \<and> routeCache r' = (if out = CalledNotFound
          then (routeCache r)(Method d @ '' '' @ Clean (URLPath d) \<mapsto> route404 r)
          else routeCache r)"

section \<open>Properties\<close>

subsection \<open>The compiled forms of the constant patterns\<close>

lemma placeholder_compiled: "Compile placeholder_src = Inr placeholder_rx"
  by code_simp

lemma include_compiled: "Compile include_src = Inr include_rx"
  by code_simp

lemma cond_compiled: "Compile cond_src = Inr cond_rx"
  by code_simp

subsection \<open>Conditional directives\<close>

lemma find_cond_neg:
  "FindAllStringSubmatch cond_rx ''<!-- if !$DEV { Y } -->''
     = [[''<!-- if !$DEV { Y } -->'', ''!'', ''DEV'', ''Y '']]"
  by code_simp

lemma find_cond_pos:
  "FindAllStringSubmatch cond_rx ''<!-- if $DEV { X } -->''
     = [[''<!-- if $DEV { X } -->'', [], ''DEV'', ''X '']]"
  by code_simp

lemma find_incl_none:
  "FindAllStringSubmatch include_rx ''<!-- if $DEV { X } -->'' = []"
  "FindAllStringSubmatch include_rx ''<!-- if !$DEV { Y } -->'' = []"
  by code_simp+

text \<open>
  C8. With \<^verbatim>\<open>DEV\<close> unset the positive form resolves to the empty string and with
  \<^verbatim>\<open>DEV=1\<close> the negated form does, as the claim says. The text that is kept,
  however, is not exactly \<^verbatim>\<open>Y\<close> or \<^verbatim>\<open>X\<close>: the greedy \<^verbatim>\<open>(.+)\<close> takes the
  blank before the closing brace with it, and the \<^verbatim>\<open>\s*\<close> after it is left with
  nothing, so the results are \<^verbatim>\<open>Y\<close> and \<^verbatim>\<open>X\<close> followed by a blank.
\<close>

theorem conditional_keeps_trailing_blank:
  "parseHTML (Suc n) (bare_world (\<lambda>v. [])) ''<!-- if $DEV { X } -->'' dir = Some (Inr [])
   \<and> parseHTML (Suc n) (bare_world (\<lambda>v. [])) ''<!-- if !$DEV { Y } -->'' dir = Some (Inr ''Y '')
   \<and> parseHTML (Suc n) (bare_world dev_set) ''<!-- if $DEV { X } -->'' dir = Some (Inr ''X '')
   \<and> parseHTML (Suc n) (bare_world dev_set) ''<!-- if !$DEV { Y } -->'' dir = Some (Inr [])"
  by (simp add: find_cond_neg find_cond_pos find_incl_none bare_world_def dev_set_def
      HasPrefix_def)

subsection \<open>Include directives and the error mapping\<close>

lemma find_incl_missing:
  "FindAllStringSubmatch include_rx missing_include = [[missing_include, ''missing.html'']]"
  by code_simp

lemma join_missing: "Join [''/'', ''missing.html''] = ''/missing.html''"
  by code_simp

text \<open>
  C2. A text that includes a file that does not exist: \<^verbatim>\<open>os.ReadFile\<close> fails with an
  error that is \<^verbatim>\<open>fs.ErrNotExist\<close>, but \<open>parseHTML\<close> keeps only its message
  (\<^verbatim>\<open>fmt.Errorf\<close> with \<^verbatim>\<open>%s\<close>), so the test \<^verbatim>\<open>errors.Is(err, fs.ErrNotExist)\<close> of
  \<open>serveHTML\<close> fails and the server-error fallback is called, not the not-found one.
\<close>

theorem missing_include_is_server_error:
  "serveHTML (Suc n) (bare_world env) r d False missing_include ''/''
     = Some (r, CalledError (errorString
         ''unreadable include open missing.html: no such file or directory''))
   \<and> errors_Is (PathError ''open'' ''missing.html'' ENOENT) ErrNotExist"
  by (simp add: serveHTML_def find_incl_missing join_missing readHTMLFile_def TrimPrefix_def
      HasPrefix_def bare_world_def)


text \<open>
  More generally, every error of \<open>parseHTML\<close> is a plain message, so \<open>serveHTML\<close>
  never calls the not-found fallback.
\<close>

lemma include_loop_error:
  assumes rec: "\<And>body dir e. rec body dir = Some (Inl e) \<Longrightarrow> \<exists>msg. e = errorString msg"
  shows "include_loop rec w parentDir ms str = Some (Inl e) \<Longrightarrow> \<exists>msg. e = errorString msg"
proof (induction ms arbitrary: str)
  case Nil
  then show ?case by simp
next
  case (Cons m ms)
  then show ?case
    by (auto simp: Let_def split: sum.splits option.splits dest: rec)
qed

lemma parseHTML_error:
  "parseHTML n w str dir = Some (Inl e) \<Longrightarrow> \<exists>msg. e = errorString msg"
proof (induction n arbitrary: str dir e)
  case 0
  then show ?case by simp
next
  case (Suc n)
  from Suc.prems have "include_loop (parseHTML n w) w dir (FindAllStringSubmatch include_rx str) str
      = Some (Inl e)"
    by (auto split: option.splits sum.splits)
  then show ?case
    using include_loop_error [of "parseHTML n w"] Suc.IH by blast
qed

lemma serveHTML_never_calls_NotFound:
  "serveHTML n w r d static text dir = Some (r', out) \<Longrightarrow> out \<noteq> CalledNotFound"
  by (auto simp: serveHTML_def Let_def split: option.splits sum.splits if_splits
      dest!: parseHTML_error)

subsection \<open>Invalidation and the document cache\<close>

lemma clear_index_pattern:
  "Compile (fst (parsePattern (''[A-Z]+ '' @ ''/index.html''))) = Inr index_clear_rx"
  by code_simp

lemma index_not_matched: "MatchString index_clear_rx ''/index.html'' = False"
  by code_simp

text \<open>
  C1. The document cache is keyed by the request path alone, but \<open>ClearCache\<close> tests its
  keys against the pattern made for the keys of the request cache, which begins with
  \<^verbatim>\<open>[A-Z]+\<close> and a blank for the method. With the document of \<^verbatim>\<open>/index.html\<close>
  cached and caching enabled, \<^verbatim>\<open>ClearCache("/index.html")\<close> leaves the entry
  where it is, and the next static request for the path is answered with the cached text,
  whatever the file holds now.
\<close>

theorem clear_cache_keeps_document:
  "(case ClearCache (r\<lparr>htmlCache := (htmlCache r)(''/index.html'' \<mapsto> old), noCache := False\<rparr>)
          ''/index.html'' of
      Inl e \<Rightarrow> False
    | Inr r' \<Rightarrow>
        htmlCache r' ''/index.html'' = Some old
        \<and> serveHTML n w r' (d\<lparr>URLPath := ''/index.html''\<rparr>) True new dir
            = Some (r', Wrote old))"
  using clear_index_pattern
  by (simp add: ClearCache_def index_not_matched delete_matching_def serveHTML_def)

subsection \<open>Removing routes\<close>

text \<open>
  C3. Three routes, the first two for \<^verbatim>\<open>/a\<close> and next to each other. After
  \<^verbatim>\<open>RemoveRoute("/a")\<close> the second is still in the primary tier: removing the first
  moved it to the index the loop had just left, and the loop went on with the next index.
\<close>

theorem remove_route_skips_adjacent:
  "(case register (NewRouter w)
          [(''GET'', ''/a'', UserHandler 1), (''POST'', ''/a'', UserHandler 2),
           (''GET'', ''/b'', UserHandler 3)] of
      Inl e \<Rightarrow> False
    | Inr r0 \<Rightarrow>
        (case RemoveRoute r0 ''/a'' of
           Inl e \<Rightarrow> False
         | Inr r \<Rightarrow>
             map (\<lambda>rt. (route_method rt, callback rt,
                        map_option (\<lambda>rx. MatchString rx ''/a'') (pattern rt))) (routes r)
               = [(''POST'', UserHandler 2, Some True), (''GET'', UserHandler 3, Some False)]))"
  by code_simp

text \<open>
  With only the two routes for \<^verbatim>\<open>/a\<close>, the loop reads the stale second cell of the
  array and slices past the shortened slice.
\<close>

lemma remove_route_two_adjacent_panics:
  "(case register (NewRouter w)
          [(''GET'', ''/a'', UserHandler 1), (''POST'', ''/a'', UserHandler 2)] of
      Inl e \<Rightarrow> False
    | Inr r0 \<Rightarrow>
        (case RemoveRoute r0 ''/a'' of Inl e \<Rightarrow> e = SliceBounds 2 1 | Inr r \<Rightarrow> False))"
  by code_simp

subsection \<open>Compiling route strings\<close>

text \<open>The examples of the specification.\<close>

lemma parsePattern_examples:
  "parsePattern ''/files/@@path'' = (''^/files/(.+)$'', [''path''])"
  "parsePattern ''/user/@id'' = (''^/user/([^/]+)$'', [''id''])"
  "parsePattern ''/user/@id/'' = (''^/user/([^/]+)$'', [''id''])"
  "parsePattern ''/'' = (''^/$'', [])"
  "parsePattern ''/test/@foo/@bar'' = (''^/test/([^/]+)/([^/]+)$'', [''foo'', ''bar''])"
  by code_simp+

lemma compiled_examples:
  "(case Compile ''^/files/(.+)$'' of
      Inl e \<Rightarrow> False
    | Inr rx \<Rightarrow> find_from rx True ''/files/a/b/c'' = Some (''/files/a/b/c'', [''a/b/c'']))"
  "(case Compile ''^/user/([^/]+)$'' of
      Inl e \<Rightarrow> False
    | Inr rx \<Rightarrow> find_from rx True ''/user/42'' = Some (''/user/42'', [''42''])
        \<and> \<not> MatchString rx ''/user/42/extra'')"
  by code_simp+

text \<open>
  C4. The route string \<^verbatim>\<open>/@@id/@idx\<close> has two well-formed placeholders. The name of
  the first is the beginning of the name of the second, and after \<^verbatim>\<open>@@id\<close> has been
  replaced, the replacement of \<^verbatim>\<open>@id\<close> finds the beginning of \<^verbatim>\<open>@idx\<close>. The
  second placeholder becomes a capture followed by the letter \<^verbatim>\<open>x\<close>: the matcher
  rejects \<^verbatim>\<open>/a/b\<close> and accepts \<^verbatim>\<open>/a/bx\<close>.
\<close>

theorem placeholder_prefix_clash:
  "parsePattern ''/@@id/@idx'' = (''^/(.+)/([^/]+)x$'', [''id'', ''idx''])
   \<and> (case Compile (fst (parsePattern ''/@@id/@idx'')) of
        Inl e \<Rightarrow> False
      | Inr rx \<Rightarrow>
          \<not> MatchString rx ''/a/b''
          \<and> find_from rx True ''/a/bx'' = Some (''/a/bx'', [''a'', ''b'']))"
  by code_simp


subsection \<open>Dispatch\<close>

text \<open>
  The routes of the two tiers are compiled: a new router has none, and \<open>createRoute\<close>
  and \<open>RemoveRoute\<close> keep it so.
\<close>

lemma NewRouter_compiled:
  "\<forall>rt \<in> set (routes (NewRouter w) @ lateRoutes (NewRouter w)). pattern rt \<noteq> None"
  by (simp add: NewRouter_def)

lemma createRoute_compiled:
  assumes "createRoute r str cb mthd late = Inr r'"
    and "\<forall>rt \<in> set (routes r @ lateRoutes r). pattern rt \<noteq> None"
  shows "\<forall>rt \<in> set (routes r' @ lateRoutes r'). pattern rt \<noteq> None"
  using assms by (auto simp: createRoute_def Let_def split: sum.splits if_splits)

lemma ClearCache_routes:
  "ClearCache r str = Inr r' \<Longrightarrow> routes r' = routes r \<and> lateRoutes r' = lateRoutes r"
  by (auto simp: ClearCache_def split: sum.splits)

lemma remove_loop_subset:
  assumes "remove_loop str is arr r = Inr r'"
    and "set arr \<subseteq> S" and "set (routes r) \<subseteq> S"
  shows "set (routes r') \<subseteq> S \<and> lateRoutes r' = lateRoutes r"
  using assms
proof (induction "is" arbitrary: arr r)
  case Nil
  then show ?case by simp
next
  case (Cons i "is")
  show ?case
  proof (cases "pattern (arr ! i)")
    case None
    with Cons.prems show ?thesis by simp
  next
    case (Some rx)
    show ?thesis
    proof (cases "MatchString rx str")
      case False
      with Some Cons show ?thesis by simp
    next
      case True
      let ?new = "take i arr @ drop (i + 1) (routes r)"
      let ?arr = "?new @ drop (length ?new) arr"
      from Cons.prems(1) Some True obtain r1 where
        clear: "ClearCache (r\<lparr>routes := ?new\<rparr>) str = Inr r1"
        and rest: "remove_loop str is ?arr r1 = Inr r'"
        by (auto simp: Let_def split: if_splits sum.splits)
      have new: "set ?new \<subseteq> S"
        using Cons.prems(2,3) by (auto dest: in_set_takeD in_set_dropD)
      then have arr: "set ?arr \<subseteq> S"
        using Cons.prems(2) by (auto dest: in_set_dropD)
      have r1: "routes r1 = ?new" "lateRoutes r1 = lateRoutes r"
        using ClearCache_routes [OF clear] by simp_all
      from Cons.IH [OF rest arr] new r1 show ?thesis by simp
    qed
  qed
qed

lemma RemoveRoute_compiled:
  assumes "RemoveRoute r str = Inr r'"
    and "\<forall>rt \<in> set (routes r @ lateRoutes r). pattern rt \<noteq> None"
  shows "\<forall>rt \<in> set (routes r' @ lateRoutes r'). pattern rt \<noteq> None"
  using remove_loop_subset [OF assms(1) [unfolded RemoveRoute_def], of "set (routes r)"] assms(2)
  by auto

lemma scan_routes_find:
  "\<forall>rt \<in> set rts. pattern rt \<noteq> None \<Longrightarrow>
   scan_routes rts mthd url = Inr (find (route_matches mthd url) rts)"
  by (induction rts) (auto simp: route_matches_def split: option.splits)

lemma ServeHTTP_miss:
  assumes miss: "noCache r \<or> routeCache r (mthd @ '' '' @ Clean path) = None"
    and compiled: "\<forall>rt \<in> set (routes r @ lateRoutes r). pattern rt \<noteq> None"
  shows "ServeHTTP r mthd path =
     (let url = Clean path; key = mthd @ '' '' @ url
      in case find (route_matches mthd url) (routes r) of
           Some rt \<Rightarrow> Inr (writeCache r key rt, rt, PrimaryScan)
         | None \<Rightarrow>
            (case find (route_matches mthd url) (lateRoutes r) of
               Some rt \<Rightarrow> Inr (writeCache r key rt, rt, LateScan)
             | None \<Rightarrow> Inr (writeCache r key (route404 r), route404 r, NotFoundFallback)))"
proof -
  have 1: "scan_routes (routes r) mthd (Clean path) = Inr (find (route_matches mthd (Clean path)) (routes r))"
    using compiled by (intro scan_routes_find) simp
  have 2: "scan_routes (lateRoutes r) mthd (Clean path) = Inr (find (route_matches mthd (Clean path)) (lateRoutes r))"
    using compiled by (intro scan_routes_find) simp
  have 3: "(if noCache r then None else routeCache r (mthd @ '' '' @ Clean path)) = None"
    using miss by auto
  show ?thesis
    unfolding ServeHTTP_def Let_def 3 1 2 by (simp split: option.splits)
qed

text \<open>
  C5. A dispatch that does not use the cache (no entry for the key, or caching disabled),
  on a router whose tiers hold compiled routes (\<open>createRoute\<close> adds no other): the route
  called is the first route of the primary tier, in registration order, that answers the
  request; if no primary route does, the first late route that does; if none does, the
  not-found fallback.
\<close>

theorem dispatch_precedence:
  assumes miss: "noCache r \<or> routeCache r (mthd @ '' '' @ Clean path) = None"
    and compiled: "\<forall>rt \<in> set (routes r @ lateRoutes r). pattern rt \<noteq> None"
  shows "\<exists>r' rt b. ServeHTTP r mthd path = Inr (r', rt, b) \<and>
     ((\<exists>i < length (routes r). rt = routes r ! i \<and> route_matches mthd (Clean path) rt
          \<and> (\<forall>j < i. \<not> route_matches mthd (Clean path) (routes r ! j)) \<and> b = PrimaryScan)
      \<or> ((\<forall>x \<in> set (routes r). \<not> route_matches mthd (Clean path) x)
          \<and> (\<exists>i < length (lateRoutes r). rt = lateRoutes r ! i
                \<and> route_matches mthd (Clean path) rt
                \<and> (\<forall>j < i. \<not> route_matches mthd (Clean path) (lateRoutes r ! j)))
          \<and> b = LateScan)
      \<or> ((\<forall>x \<in> set (routes r @ lateRoutes r). \<not> route_matches mthd (Clean path) x)
          \<and> rt = route404 r \<and> b = NotFoundFallback))"
proof -
  let ?P = "route_matches mthd (Clean path)"
  let ?key = "mthd @ '' '' @ Clean path"
  note eq = ServeHTTP_miss [OF miss compiled, unfolded Let_def]
  show ?thesis
  proof (cases "find ?P (routes r)")
    case (Some rt)
    then have "ServeHTTP r mthd path = Inr (writeCache r ?key rt, rt, PrimaryScan)"
      using eq by simp
    moreover obtain i where "i < length (routes r)" "rt = routes r ! i" "?P rt"
        "\<forall>j < i. \<not> ?P (routes r ! j)"
      using Some by (auto simp: find_Some_iff)
    ultimately show ?thesis by blast
  next
    case None
    note primary = None
    then have no1: "\<forall>x \<in> set (routes r). \<not> ?P x"
      by (auto simp: find_None_iff)
    show ?thesis
    proof (cases "find ?P (lateRoutes r)")
      case (Some rt)
      then have "ServeHTTP r mthd path = Inr (writeCache r ?key rt, rt, LateScan)"
        using eq primary by simp
      moreover obtain i where "i < length (lateRoutes r)" "rt = lateRoutes r ! i" "?P rt"
          "\<forall>j < i. \<not> ?P (lateRoutes r ! j)"
        using Some by (auto simp: find_Some_iff)
      ultimately show ?thesis using no1 by blast
    next
      case None
      then have "ServeHTTP r mthd path
          = Inr (writeCache r ?key (route404 r), route404 r, NotFoundFallback)"
        using eq primary by simp
      moreover have "\<forall>x \<in> set (routes r @ lateRoutes r). \<not> ?P x"
        using no1 None by (auto simp: find_None_iff)
      ultimately show ?thesis by blast
    qed
  qed
qed

lemma ServeHTTP_cases:
  assumes "ServeHTTP r mthd path = Inr (r1, rt, b)"
  shows "(b = CacheHit \<and> r1 = r \<and> \<not> noCache r \<and> routeCache r (mthd @ '' '' @ Clean path) = Some rt)
     \<or> (b \<noteq> CacheHit \<and> r1 = writeCache r (mthd @ '' '' @ Clean path) rt
          \<and> (b = NotFoundFallback \<longrightarrow> rt = route404 r))"
  using assms
  by (auto simp: ServeHTTP_def Let_def split: option.splits sum.splits if_splits)

lemma ServeHTTP_hit:
  "\<not> noCache r \<Longrightarrow> routeCache r (mthd @ '' '' @ Clean path) = Some rt \<Longrightarrow>
   ServeHTTP r mthd path = Inr (r, rt, CacheHit)"
  by (simp add: ServeHTTP_def)

lemma ServeHTTP_returns:
  assumes "\<forall>rt \<in> set (routes r @ lateRoutes r). pattern rt \<noteq> None"
  shows "\<exists>r1 rt b. ServeHTTP r mthd path = Inr (r1, rt, b)"
proof (cases "noCache r \<or> routeCache r (mthd @ '' '' @ Clean path) = None")
  case True
  from ServeHTTP_miss [OF True assms] show ?thesis
    by (auto simp: Let_def split: option.splits)
next
  case False
  then show ?thesis
    by (auto simp: ServeHTTP_def)
qed

text \<open>
  The run of a route changes the request cache only where \<^verbatim>\<open>Data.NotFound\<close> has
  written, and it leaves the fallback routes and the caching switch as they are.
\<close>

lemma effect_trans: "effect r r1 ks1 \<Longrightarrow> effect r1 r2 ks2 \<Longrightarrow> effect r r2 (ks1 @ ks2)"
  by (auto simp: effect_def)

lemma serveHTML_effect:
  "serveHTML n w r d st txt dir = Some (r', out) \<Longrightarrow> library_effect r r' d out"
  by (auto simp: serveHTML_def NotFound_def writeCache_def Let_def library_effect_def
      split: option.splits sum.splits if_splits)

lemma serveHTMLStatic_effect:
  "serveHTMLStatic n w r d dir fn = Some (r', out) \<Longrightarrow> library_effect r r' d out"
  by (auto simp: serveHTMLStatic_def library_effect_def dest: serveHTML_effect split: sum.splits)

lemma StaticDir_effect:
  "StaticDir n w r dir d = Some (d', r', out) \<Longrightarrow> library_effect r r' d' out"
  by (auto simp: StaticDir_def Let_def NotFound_def writeCache_def library_effect_def
      dest: serveHTMLStatic_effect split: if_splits)

lemma StaticFile_effect:
  "StaticFile n w r fn d = Some (d', r', out) \<Longrightarrow> library_effect r r' d' out"
  by (auto simp: StaticFile_def Let_def library_effect_def dest: serveHTMLStatic_effect
      split: if_splits)

lemma NotFound_effect:
  "library_effect r (NotFound r (Method d) (URLPath d)) d CalledNotFound"
  by (simp add: library_effect_def NotFound_def writeCache_def)

lemma and_then_effect:
  assumes run: "and_then x f = Some (r', p', ks, e)"
    and x: "\<And>r1 p1 k1 e1. x = Some (r1, p1, k1, e1) \<Longrightarrow> effect r r1 k1"
    and f: "\<And>r1 p1 r2 p2 k2 e2. f r1 p1 = Some (r2, p2, k2, e2) \<Longrightarrow> effect r1 r2 k2"
  shows "effect r r' ks"
proof -
  from run consider (stop) e1 where "x = Some (r', p', ks, Some e1)"
    | (go) r1 p1 k1 k2 where "x = Some (r1, p1, k1, None)" "f r1 p1 = Some (r', p', k2, e)"
        "ks = k1 @ k2"
    by (auto simp: and_then_def split: option.splits)
  then show ?thesis
  proof cases
    case stop
    then show ?thesis by (rule x)
  next
    case go
    from effect_trans [OF x [OF go(1)] f [OF go(2)]] go(3) show ?thesis
      by simp
  qed
qed

lemma fallback_effect:
  assumes call: "\<And>r rt url req mthd r' p' ks e.
      call r rt url req mthd = Some (r', p', ks, e) \<Longrightarrow> effect r r' ks"
    and pre: "library_effect r r1 d out"
    and run: "fallback call r1 d out = Some (r', p', ks, e)"
  shows "effect r r' ks"
proof (cases out)
  case CalledNotFound
  with run have a: "and_then (Some (r1, URLPath d, [Method d @ '' '' @ Clean (URLPath d)], None))
            (\<lambda>r' p. call r' (route404 r') (Clean p) p (Method d)) = Some (r', p', ks, e)"
    by (simp add: fallback_def)
  have "effect r r1 [Method d @ '' '' @ Clean (URLPath d)]"
    using pre CalledNotFound by (simp add: library_effect_def effect_def)
  then show ?thesis
    by (intro and_then_effect [OF a]) (auto dest: call)
next
  case (CalledError err)
  with run have c: "call r1 (route500 r1) (Clean (URLPath d)) (URLPath d) (Method d)
      = Some (r', p', ks, e)"
    by (simp add: fallback_def)
  from call [OF c] pre CalledError show ?thesis
    by (auto simp: effect_def library_effect_def)
next
  case (Wrote s)
  with run pre show ?thesis by (auto simp: fallback_def effect_def library_effect_def)
next
  case (FileServed f)
  with run pre show ?thesis by (auto simp: fallback_def effect_def library_effect_def)
qed

lemma run_signals_effect:
  assumes call: "\<And>r rt url req mthd r' p' ks e.
      call r rt url req mthd = Some (r', p', ks, e) \<Longrightarrow> effect r r' ks"
  shows "run_signals call d ss r p = Some (r', p', ks, e) \<Longrightarrow> effect r r' ks"
proof (induction ss arbitrary: r p r' p' ks e)
  case Nil
  then show ?case by (simp add: effect_def)
next
  case (Cons s ss)
  define r0 where "r0 = (case s of SignalNotFound \<Rightarrow> NotFound r (Method d) p | SignalError \<Rightarrow> r)"
  define out where "out = (case s of SignalNotFound \<Rightarrow> CalledNotFound
      | SignalError \<Rightarrow> CalledError (errorString ''handler''))"
  have pre: "library_effect r r0 (d\<lparr>URLPath := p\<rparr>) out"
    using NotFound_effect [of r "d\<lparr>URLPath := p\<rparr>"]
    by (cases s) (simp_all add: r0_def out_def library_effect_def)
  from Cons.prems have a: "and_then (fallback call r0 (d\<lparr>URLPath := p\<rparr>) out)
       (run_signals call d ss) = Some (r', p', ks, e)"
    by (cases s) (simp_all add: r0_def out_def)
  show ?case
  proof (rule and_then_effect [OF a])
    fix r1 p1 k1 e1
    assume f: "fallback call r0 (d\<lparr>URLPath := p\<rparr>) out = Some (r1, p1, k1, e1)"
    show "effect r r1 k1"
      by (rule fallback_effect [OF call pre f])
  next
    fix r1 p1 r2 p2 k2 e2
    assume "run_signals call d ss r1 p1 = Some (r2, p2, k2, e2)"
    then show "effect r1 r2 k2"
      by (rule Cons.IH)
  qed
qed

lemma run_callback_effect:
  assumes call: "\<And>r rt url req mthd r' p' ks e.
      call r rt url req mthd = Some (r', p', ks, e) \<Longrightarrow> effect r r' ks"
    and run: "run_callback call n w user r cb d = Some (r', p', ks, e)"
  shows "effect r r' ks"
proof (cases cb)
  case Default404
  with run show ?thesis by (auto simp: run_callback_def effect_def)
next
  case Default500
  with run show ?thesis by (auto simp: run_callback_def effect_def)
next
  case (StaticDirHandler dir)
  with run obtain d1 r1 out where s: "StaticDir n w r dir d = Some (d1, r1, out)"
    and f: "fallback call r1 d1 out = Some (r', p', ks, e)"
    by (auto simp: run_callback_def split: option.splits)
  show ?thesis
    by (rule fallback_effect [OF call StaticDir_effect [OF s] f])
next
  case (StaticFileHandler fn)
  with run obtain d1 r1 out where s: "StaticFile n w r fn d = Some (d1, r1, out)"
    and f: "fallback call r1 d1 out = Some (r', p', ks, e)"
    by (auto simp: run_callback_def split: option.splits)
  show ?thesis
    by (rule fallback_effect [OF call StaticFile_effect [OF s] f])
next
  case (UserHandler k)
  with run have a: "and_then (run_signals call d (fst (user k d)) r (URLPath d))
            (\<lambda>r' p. let html = snd (user k d)
               in if html = [] then Some (r', p, [], None)
                  else (case serveHTML n w r' (d\<lparr>URLPath := p, HTML := html\<rparr>) False html ''/'' of
                          None \<Rightarrow> None
                        | Some (r'', out) \<Rightarrow> fallback call r'' (d\<lparr>URLPath := p\<rparr>) out))
        = Some (r', p', ks, e)"
    by (simp add: run_callback_def)
  show ?thesis
  proof (rule and_then_effect [OF a])
    fix r1 p1 k1 e1
    assume g: "run_signals call d (fst (user k d)) r (URLPath d) = Some (r1, p1, k1, e1)"
    show "effect r r1 k1"
      by (rule run_signals_effect [OF call g])
  next
    fix r1 p1 r2 p2 k2 e2
    assume b: "(let html = snd (user k d)
               in if html = [] then Some (r1, p1, [], None)
                  else (case serveHTML n w r1 (d\<lparr>URLPath := p1, HTML := html\<rparr>) False html ''/'' of
                          None \<Rightarrow> None
                        | Some (r'', out) \<Rightarrow> fallback call r'' (d\<lparr>URLPath := p1\<rparr>) out))
        = Some (r2, p2, k2, e2)"
    show "effect r1 r2 k2"
    proof (cases "snd (user k d) = []")
      case True
      with b show ?thesis by (simp add: effect_def)
    next
      case False
      with b obtain r3 out where
        s: "serveHTML n w r1 (d\<lparr>URLPath := p1, HTML := snd (user k d)\<rparr>) False (snd (user k d)) ''/''
            = Some (r3, out)"
        and f: "fallback call r3 (d\<lparr>URLPath := p1\<rparr>) out = Some (r2, p2, k2, e2)"
        by (auto simp: Let_def split: option.splits)
      have pre: "library_effect r1 r3 (d\<lparr>URLPath := p1\<rparr>) out"
        using serveHTML_effect [OF s] by (simp add: library_effect_def)
      show ?thesis
        by (rule fallback_effect [OF call pre f])
    qed
  qed
qed

lemma run_route_effect:
  "run_route n w user r rt url req mthd = Some (r', p', ks, e) \<Longrightarrow> effect r r' ks"
proof (induction n arbitrary: r rt url req mthd r' p' ks e)
  case 0
  then show ?case by simp
next
  case (Suc n)
  show ?case
  proof (cases "callRoute r rt url mthd")
    case (Inl err)
    with Suc.prems show ?thesis by (simp add: effect_def)
  next
    case (Inr d)
    with Suc.prems have
      run: "run_callback (run_route n w user) n w user r (callback rt) (d\<lparr>URLPath := req\<rparr>)
          = Some (r', p', ks, e)"
      by simp
    show ?thesis
      by (rule run_callback_effect [OF Suc.IH run])
  qed
qed

lemma scan_routes_Inr:
  "scan_routes rts mthd url = Inr res \<Longrightarrow> res = find (route_matches mthd url) rts"
  by (induction rts) (auto simp: route_matches_def split: option.splits if_splits)

lemma ServeHTTP_unanswered:
  assumes first: "ServeHTTP r mthd path = Inr (r1, rt, b)"
    and miss: "routeCache r (mthd @ '' '' @ Clean path) = None"
    and none: "\<forall>x \<in> set (routes r @ lateRoutes r). \<not> route_matches mthd (Clean path) x"
  shows "rt = route404 r \<and> b = NotFoundFallback"
proof -
  have 1: "find (route_matches mthd (Clean path)) (routes r) = None"
    and 2: "find (route_matches mthd (Clean path)) (lateRoutes r) = None"
    using none by (auto simp: find_None_iff)
  from first miss show ?thesis
    by (auto simp: ServeHTTP_def Let_def 1 2 split: sum.splits option.splits if_splits
        dest!: scan_routes_Inr)
qed

lemma dispatch_Inr:
  assumes "dispatch n w user r mthd path = Some (Inr (r2, rt, b, ks, e))"
  shows "\<exists>r1 p. ServeHTTP r mthd path = Inr (r1, rt, b)
     \<and> run_route n w user r1 rt (Clean path) (Clean path) mthd = Some (r2, p, ks, e)"
  using assms by (auto simp: dispatch_def split: sum.splits option.splits)

text \<open>
  Given some fuel, a dispatch ends when the route it selects runs a default fallback or
  a handler of the application that sends no signal and leaves no markup; a dispatch
  that no route answers ends in the default not-found fallback.
\<close>

lemma dispatch_ends:
  assumes sel: "ServeHTTP r mthd path = Inr (r1, rt, b)"
    and quiet: "callback rt = Default404 \<or> callback rt = Default500
       \<or> (\<exists>k. callback rt = UserHandler k \<and> (\<forall>d. user k d = ([], [])))"
  shows "\<exists>e. dispatch (Suc n) w user r mthd path = Some (Inr (r1, rt, b, [], e))"
proof (cases "callRoute r1 rt (Clean path) mthd")
  case (Inl err)
  with sel show ?thesis by (simp add: dispatch_def)
next
  case (Inr d)
  have "run_callback (run_route n w user) n w user r1 (callback rt) (d\<lparr>URLPath := Clean path\<rparr>)
      = Some (r1, Clean path, [], None)"
    using quiet by (auto simp: run_callback_def and_then_def)
  with sel Inr show ?thesis by (simp add: dispatch_def)
qed

lemma unanswered_dispatch_ends:
  assumes compiled: "\<forall>rt \<in> set (routes r @ lateRoutes r). pattern rt \<noteq> None"
    and miss: "noCache r \<or> routeCache r (mthd @ '' '' @ Clean path) = None"
    and none: "\<forall>x \<in> set (routes r @ lateRoutes r). \<not> route_matches mthd (Clean path) x"
    and default: "callback (route404 r) = Default404" "params (route404 r) = []"
  shows "dispatch (Suc n) w user r mthd path
     = Some (Inr (writeCache r (mthd @ '' '' @ Clean path) (route404 r), route404 r,
                  NotFoundFallback, [], None))"
proof -
  have "find (route_matches mthd (Clean path)) (routes r) = None"
    "find (route_matches mthd (Clean path)) (lateRoutes r) = None"
    using none by (auto simp: find_None_iff)
  then have sel: "ServeHTTP r mthd path
      = Inr (writeCache r (mthd @ '' '' @ Clean path) (route404 r), route404 r, NotFoundFallback)"
    using ServeHTTP_miss [OF miss compiled] by simp
  show ?thesis
    using default by (simp add: dispatch_def sel callRoute_def extract_params_def run_callback_def)
qed

text \<open>
  C6, as amended. With caching enabled, let a dispatch of a method and a path end, with
  the run of its handlers (normally, or by a panic of a handler), and let no route be
  registered or removed and no cache be cleared. A second dispatch of the same method and path takes the cache-hit branch, whatever the
  two tiers hold (so neither is scanned). It calls the route that the first dispatch
  called, provided that no handler run by the first dispatch has called
  \<^verbatim>\<open>Data.NotFound\<close> for this method and normalized path; if one has, the second
  dispatch calls the not-found fallback. For a path that no route answers and that has
  no entry yet, the first dispatch calls the not-found fallback and stores it.
\<close>

theorem second_dispatch_hits_cache:
  assumes enabled: "\<not> noCache r"
    and first: "dispatch n w user r mthd path = Some (Inr (r2, rt, b, ks, e))"
  shows "ServeHTTP r2 mthd path
       = Inr (r2, (if mthd @ '' '' @ Clean path \<in> set ks then route404 r else rt), CacheHit)
     \<and> (\<forall>rs ls. ServeHTTP (r2\<lparr>routes := rs, lateRoutes := ls\<rparr>) mthd path
            = Inr (r2\<lparr>routes := rs, lateRoutes := ls\<rparr>,
                   (if mthd @ '' '' @ Clean path \<in> set ks then route404 r else rt), CacheHit))
     \<and> (\<forall>m w' user' r3 rt' b' ks' e'.
            dispatch m w' user' r2 mthd path = Some (Inr (r3, rt', b', ks', e'))
            \<longrightarrow> rt' = (if mthd @ '' '' @ Clean path \<in> set ks then route404 r else rt)
                \<and> b' = CacheHit)
     \<and> (routeCache r (mthd @ '' '' @ Clean path) = None
          \<and> (\<forall>x \<in> set (routes r @ lateRoutes r). \<not> route_matches mthd (Clean path) x)
          \<longrightarrow> rt = route404 r \<and> b = NotFoundFallback
              \<and> routeCache r2 (mthd @ '' '' @ Clean path) = Some (route404 r))"
proof -
  let ?key = "mthd @ '' '' @ Clean path"
  let ?rt2 = "if ?key \<in> set ks then route404 r else rt"
  from dispatch_Inr [OF first] obtain r1 p where
    sel: "ServeHTTP r mthd path = Inr (r1, rt, b)"
    and run: "run_route n w user r1 rt (Clean path) (Clean path) mthd = Some (r2, p, ks, e)"
    by blast
  have r1: "routeCache r1 ?key = Some rt" "\<not> noCache r1" "route404 r1 = route404 r"
    using ServeHTTP_cases [OF sel] enabled by (auto simp: writeCache_def)
  have eff: "effect r1 r2 ks"
    by (rule run_route_effect [OF run])
  have c: "routeCache r2 ?key = Some ?rt2" and n: "\<not> noCache r2"
    using eff r1 by (auto simp: effect_def)
  have second: "ServeHTTP r2 mthd path = Inr (r2, ?rt2, CacheHit)"
    using n c by (rule ServeHTTP_hit)
  have tiers: "ServeHTTP (r2\<lparr>routes := rs, lateRoutes := ls\<rparr>) mthd path
            = Inr (r2\<lparr>routes := rs, lateRoutes := ls\<rparr>, ?rt2, CacheHit)" for rs ls
    using c n by (intro ServeHTTP_hit) simp_all
  have again: "rt' = ?rt2 \<and> b' = CacheHit"
    if "dispatch m w' user' r2 mthd path = Some (Inr (r3, rt', b', ks', e'))"
    for m w' user' r3 rt' b' ks' e'
    using dispatch_Inr [OF that] second by auto
  have unanswered: "rt = route404 r \<and> b = NotFoundFallback \<and> routeCache r2 ?key = Some (route404 r)"
    if miss: "routeCache r ?key = None"
      and none: "\<forall>x \<in> set (routes r @ lateRoutes r). \<not> route_matches mthd (Clean path) x"
    using ServeHTTP_unanswered [OF sel miss none] c by simp
  show ?thesis
  proof (intro conjI allI impI)
    show "ServeHTTP r2 mthd path = Inr (r2, ?rt2, CacheHit)" by (rule second)
    show "ServeHTTP (r2\<lparr>routes := rs, lateRoutes := ls\<rparr>) mthd path
            = Inr (r2\<lparr>routes := rs, lateRoutes := ls\<rparr>, ?rt2, CacheHit)" for rs ls
      by (rule tiers)
    show "rt' = ?rt2" if "dispatch m w' user' r2 mthd path = Some (Inr (r3, rt', b', ks', e'))"
      for m w' user' r3 rt' b' ks' e'
      using again [OF that] by simp
    show "b' = CacheHit" if "dispatch m w' user' r2 mthd path = Some (Inr (r3, rt', b', ks', e'))"
      for m w' user' r3 rt' b' ks' e'
      using again [OF that] by simp
    show "rt = route404 r"
      if "routeCache r ?key = None
          \<and> (\<forall>x \<in> set (routes r @ lateRoutes r). \<not> route_matches mthd (Clean path) x)"
      using unanswered [OF that [THEN conjunct1] that [THEN conjunct2]] by simp
    show "b = NotFoundFallback"
      if "routeCache r ?key = None
          \<and> (\<forall>x \<in> set (routes r @ lateRoutes r). \<not> route_matches mthd (Clean path) x)"
      using unanswered [OF that [THEN conjunct1] that [THEN conjunct2]] by simp
    show "routeCache r2 ?key = Some (route404 r)"
      if "routeCache r ?key = None
          \<and> (\<forall>x \<in> set (routes r @ lateRoutes r). \<not> route_matches mthd (Clean path) x)"
      using unanswered [OF that [THEN conjunct1] that [THEN conjunct2]] by simp
  qed
qed

text \<open>
  A handler that calls \<^verbatim>\<open>Data.NotFound\<close> overwrites the entry of its request: the next
  dispatch then hits the cache and calls the not-found fallback.
\<close>

lemma not_found_signal_is_cached:
  "\<not> noCache r \<Longrightarrow>
   ServeHTTP (NotFound r mthd path) mthd path = Inr (NotFound r mthd path, route404 r, CacheHit)"
  by (simp add: ServeHTTP_def NotFound_def writeCache_def)

text \<open>
  Without the proviso the two dispatches differ. With \<^verbatim>\<open>./static\<close> mounted at the
  root and no file \<^verbatim>\<open>missing.txt\<close>, the first dispatch of \<^verbatim>\<open>GET /missing.txt\<close>
  selects the route of the mount by the scan, whose handler calls
  \<^verbatim>\<open>Data.NotFound\<close>; the second selects the not-found fallback from the cache. The
  same for a handler of the application that calls \<^verbatim>\<open>Data.NotFound\<close>.
\<close>

theorem not_found_signal_changes_route:
  "dispatch_twice 2 empty_world silent root_mount ''GET'' ''/missing.txt''
      = Some (Inr ((routes root_mount ! 0, PrimaryScan), (route404 root_mount, CacheHit)))
   \<and> routes root_mount ! 0 \<noteq> route404 root_mount
   \<and> callback (routes root_mount ! 0) = StaticDirHandler ''./static''
   \<and> callback (route404 root_mount) = Default404
   \<and> \<not> noCache root_mount
   \<and> dispatch_twice 2 empty_world signals_not_found example_router ''GET'' ''/a/b''
      = Some (Inr ((routes example_router ! 0, PrimaryScan), (route404 example_router, CacheHit)))
   \<and> routes example_router ! 0 \<noteq> route404 example_router
   \<and> callback (routes example_router ! 0) = UserHandler 1
   \<and> callback (route404 example_router) = Default404
   \<and> \<not> noCache example_router"
  by code_simp

text \<open>
  With the directory mounted at \<^verbatim>\<open>/assets\<close> the handler has rewritten the path of
  the request before it calls \<^verbatim>\<open>Data.NotFound\<close>: the fallback is stored for
  \<^verbatim>\<open>GET /missing.txt\<close>, and the entry of the request itself stays.
\<close>

lemma mounted_signal_uses_rewritten_path:
  "(case dispatch 2 empty_world silent assets_mount ''GET'' ''/assets/missing.txt'' of
      Some (Inr (r2, rt, b, ks, e)) \<Rightarrow>
        e = None \<and> b = PrimaryScan \<and> callback rt = StaticDirHandler ''./static''
        \<and> ks = [''GET /missing.txt'']
        \<and> routeCache r2 ''GET /missing.txt'' = Some (route404 assets_mount)
        \<and> routeCache r2 ''GET /assets/missing.txt'' = Some rt
    | _ \<Rightarrow> False)
   \<and> dispatch_twice 2 empty_world silent assets_mount ''GET'' ''/assets/missing.txt''
      = Some (Inr ((routes assets_mount ! 0, PrimaryScan), (routes assets_mount ! 0, CacheHit)))"
  by code_simp

lemma example_compiled: "\<forall>rt \<in> set (routes example_router @ lateRoutes example_router). pattern rt \<noteq> None"
  by code_simp

lemma example_empty_cache: "routeCache example_router k = None"
  unfolding example_router_def
  by (simp add: Route_def LateRoute_def createRoute_def NewRouter_def Let_def split: sum.splits)


lemma example_cache_enabled: "\<not> noCache example_router"
  by code_simp

lemma example_first_dispatch:
  "(case ServeHTTP example_router ''GET'' ''/a/b'' of
      Inl e \<Rightarrow> False
    | Inr (r', rt, b) \<Rightarrow> callback rt = UserHandler 1 \<and> b = PrimaryScan)"
  by code_simp

theorem dispatch_precedence_witness:
  "(\<exists>r' rt b. ServeHTTP example_router ''GET'' ''/a/b'' = Inr (r', rt, b) \<and>
     ((\<exists>i < length (routes example_router). rt = routes example_router ! i
          \<and> route_matches ''GET'' (Clean ''/a/b'') rt
          \<and> (\<forall>j < i. \<not> route_matches ''GET'' (Clean ''/a/b'') (routes example_router ! j))
          \<and> b = PrimaryScan)
      \<or> ((\<forall>x \<in> set (routes example_router). \<not> route_matches ''GET'' (Clean ''/a/b'') x)
          \<and> (\<exists>i < length (lateRoutes example_router). rt = lateRoutes example_router ! i
                \<and> route_matches ''GET'' (Clean ''/a/b'') rt
                \<and> (\<forall>j < i. \<not> route_matches ''GET'' (Clean ''/a/b'')
                                 (lateRoutes example_router ! j)))
          \<and> b = LateScan)
      \<or> ((\<forall>x \<in> set (routes example_router @ lateRoutes example_router).
              \<not> route_matches ''GET'' (Clean ''/a/b'') x)
          \<and> rt = route404 example_router \<and> b = NotFoundFallback)))
   \<and> (case ServeHTTP example_router ''GET'' ''/a/b'' of
        Inl e \<Rightarrow> False
      | Inr (r', rt, b) \<Rightarrow> callback rt = UserHandler 1 \<and> b = PrimaryScan)"
proof
  have miss: "noCache example_router
      \<or> routeCache example_router (''GET'' @ '' '' @ Clean ''/a/b'') = None"
    by (simp add: example_empty_cache)
  show "\<exists>r' rt b. ServeHTTP example_router ''GET'' ''/a/b'' = Inr (r', rt, b) \<and>
     ((\<exists>i < length (routes example_router). rt = routes example_router ! i
          \<and> route_matches ''GET'' (Clean ''/a/b'') rt
          \<and> (\<forall>j < i. \<not> route_matches ''GET'' (Clean ''/a/b'') (routes example_router ! j))
          \<and> b = PrimaryScan)
      \<or> ((\<forall>x \<in> set (routes example_router). \<not> route_matches ''GET'' (Clean ''/a/b'') x)
          \<and> (\<exists>i < length (lateRoutes example_router). rt = lateRoutes example_router ! i
                \<and> route_matches ''GET'' (Clean ''/a/b'') rt
                \<and> (\<forall>j < i. \<not> route_matches ''GET'' (Clean ''/a/b'')
                                 (lateRoutes example_router ! j)))
          \<and> b = LateScan)
      \<or> ((\<forall>x \<in> set (routes example_router @ lateRoutes example_router).
              \<not> route_matches ''GET'' (Clean ''/a/b'') x)
          \<and> rt = route404 example_router \<and> b = NotFoundFallback))"
    by (rule dispatch_precedence [OF miss example_compiled])
  show "(case ServeHTTP example_router ''GET'' ''/a/b'' of
        Inl e \<Rightarrow> False
      | Inr (r', rt, b) \<Rightarrow> callback rt = UserHandler 1 \<and> b = PrimaryScan)"
    by (rule example_first_dispatch)
qed

lemma example_silent_dispatch:
  "(case dispatch 1 empty_world silent example_router ''GET'' ''/a/b'' of
      Some (Inr (r2, rt, b, ks, e)) \<Rightarrow> e = None \<and> b = PrimaryScan \<and> ks = [] \<and> callback rt = UserHandler 1
    | _ \<Rightarrow> False)"
  by code_simp

lemma example_unanswered_dispatch:
  "(case dispatch 1 empty_world silent example_router ''POST'' ''/zzz'' of
      Some (Inr (r2, rt, b, ks, e)) \<Rightarrow> e = None \<and> b = NotFoundFallback \<and> ks = [] \<and> rt = route404 example_router
    | _ \<Rightarrow> False)"
  by code_simp

lemma example_signal_dispatch:
  "(case dispatch 2 empty_world signals_not_found example_router ''GET'' ''/a/b'' of
      Some (Inr (r2, rt, b, ks, e)) \<Rightarrow>
        e = None \<and> b = PrimaryScan \<and> ks = [''GET /a/b''] \<and> callback rt = UserHandler 1
    | _ \<Rightarrow> False)"
  by code_simp

lemma example_clean_ab: "Clean ''/a/b'' = ''/a/b''"
  by code_simp

theorem second_dispatch_hits_cache_witness:
  "(\<exists>r2 rt. dispatch 1 empty_world silent example_router ''GET'' ''/a/b''
          = Some (Inr (r2, rt, PrimaryScan, [], None))
       \<and> callback rt = UserHandler 1
       \<and> ServeHTTP r2 ''GET'' ''/a/b'' = Inr (r2, rt, CacheHit))
   \<and> (\<exists>r2. dispatch 1 empty_world silent example_router ''POST'' ''/zzz''
          = Some (Inr (r2, route404 example_router, NotFoundFallback, [], None))
       \<and> ServeHTTP r2 ''POST'' ''/zzz'' = Inr (r2, route404 example_router, CacheHit))
   \<and> (\<exists>r2 rt. dispatch 2 empty_world signals_not_found example_router ''GET'' ''/a/b''
          = Some (Inr (r2, rt, PrimaryScan, [''GET /a/b''], None))
       \<and> callback rt = UserHandler 1
       \<and> ServeHTTP r2 ''GET'' ''/a/b'' = Inr (r2, route404 example_router, CacheHit))"
proof (intro conjI)
  from example_silent_dispatch obtain r2 rt where
    d: "dispatch 1 empty_world silent example_router ''GET'' ''/a/b''
          = Some (Inr (r2, rt, PrimaryScan, [], None))" and cb: "callback rt = UserHandler 1"
    by (auto split: option.splits sum.splits)
  from second_dispatch_hits_cache [OF example_cache_enabled d] cb d
  show "\<exists>r2 rt. dispatch 1 empty_world silent example_router ''GET'' ''/a/b''
          = Some (Inr (r2, rt, PrimaryScan, [], None))
       \<and> callback rt = UserHandler 1
       \<and> ServeHTTP r2 ''GET'' ''/a/b'' = Inr (r2, rt, CacheHit)"
    by simp
next
  from example_unanswered_dispatch obtain r2 where
    d: "dispatch 1 empty_world silent example_router ''POST'' ''/zzz''
          = Some (Inr (r2, route404 example_router, NotFoundFallback, [], None))"
    by (auto split: option.splits sum.splits)
  from second_dispatch_hits_cache [OF example_cache_enabled d] d
  show "\<exists>r2. dispatch 1 empty_world silent example_router ''POST'' ''/zzz''
          = Some (Inr (r2, route404 example_router, NotFoundFallback, [], None))
       \<and> ServeHTTP r2 ''POST'' ''/zzz'' = Inr (r2, route404 example_router, CacheHit)"
    by simp
next
  from example_signal_dispatch obtain r2 rt where
    d: "dispatch 2 empty_world signals_not_found example_router ''GET'' ''/a/b''
          = Some (Inr (r2, rt, PrimaryScan, [''GET /a/b''], None))" and cb: "callback rt = UserHandler 1"
    by (auto split: option.splits sum.splits)
  from second_dispatch_hits_cache [OF example_cache_enabled d] cb d
  show "\<exists>r2 rt. dispatch 2 empty_world signals_not_found example_router ''GET'' ''/a/b''
          = Some (Inr (r2, rt, PrimaryScan, [''GET /a/b''], None))
       \<and> callback rt = UserHandler 1
       \<and> ServeHTTP r2 ''GET'' ''/a/b'' = Inr (r2, route404 example_router, CacheHit)"
    by (simp add: example_clean_ab)
qed

subsection \<open>The matcher, step by step\<close>

lemma concat_map_assoc:
  "concat (map K (concat (map f xs))) = concat (map (\<lambda>x. concat (map K (f x))) xs)"
  by (induction xs) simp_all

lemma steps_thread: "steps r st = thread r (\<lambda>x. [x]) st"
  by (simp add: thread_def)

lemma thread_Eps [simp]: "thread Eps K = K"
  by (rule ext) (simp add: thread_def)

lemma thread_Seq [simp]: "thread (Seq a b) K = thread a (thread b K)"
  by (rule ext) (simp add: thread_def [abs_def] concat_map_assoc)

lemma thread_Alt [simp]: "thread (Alt a b) K st = thread a K st @ thread b K st"
  by (simp add: thread_def)

lemma thread_Opt [simp]:
  "thread (Opt g a) K st = (if g then thread a K st @ K st else K st @ thread a K st)"
  by (simp add: thread_def)

lemma thread_Grp: "thread (Grp i a) K st = thread a (\<lambda>st'. K (capture i st st')) st"
  by (simp add: thread_def comp_def)

lemma thread_Bol [simp]: "thread Bol K st = (if fst st then K st else [])"
  by (simp add: thread_def)

lemma thread_Eol [simp]: "thread Eol K st = (if remaining st = [] then K st else [])"
  by (simp add: thread_def)

lemma one_Nil [simp]: "one a (b, [], cs) = []"
  by (simp add: one_def remaining_def)

lemma one_Cons [simp]:
  "one a (b, c # t, cs) = (if accepts a c then [(False, t, cs)] else [])"
  by (simp add: one_def remaining_def)

lemma remaining_simp [simp]: "remaining (b, s, cs) = s"
  by (simp add: remaining_def)

lemma thread_Lit [simp]:
  "thread (Lit x) K (b, s, cs) =
     (case s of [] \<Rightarrow> [] | c # t \<Rightarrow> if c = x then K (False, t, cs) else [])"
  by (simp add: thread_def split: list.splits)

lemma thread_Dot [simp]:
  "thread Dot K (b, s, cs) =
     (case s of [] \<Rightarrow> [] | c # t \<Rightarrow> if c \<noteq> lf then K (False, t, cs) else [])"
  by (simp add: thread_def split: list.splits)

lemma thread_Cls [simp]:
  "thread (Cls neg rs) K (b, s, cs) =
     (case s of [] \<Rightarrow> [] | c # t \<Rightarrow> if accepts (Cls neg rs) c then K (False, t, cs) else [])"
  by (simp add: thread_def split: list.splits)

text \<open>A repetition of a one-character matcher before something that cannot begin with such a
  character takes all it can.\<close>

lemma rep_loop_possessive:
  assumes K: "\<And>b c t. accepts a c \<Longrightarrow> K (b, c # t, cs) = []"
  shows "length s \<le> n \<Longrightarrow>
     concat (map K (rep_loop g (one a) n (b, s, cs)))
       = K (b \<and> takeWhile (accepts a) s = [], dropWhile (accepts a) s, cs)"
proof (induction n arbitrary: b s)
  case 0
  then show ?case by simp
next
  case (Suc n)
  show ?case
  proof (cases s)
    case Nil
    then show ?thesis by (cases g) (simp_all add: Let_def)
  next
    case (Cons c t)
    show ?thesis
    proof (cases "accepts a c")
      case True
      have "length t \<le> n" using Suc.prems Cons by simp
      from Suc.IH [OF this, of False] True Cons K [OF True, of b t]
      show ?thesis by (cases g) (simp_all add: Let_def)
    next
      case False
      with Cons show ?thesis by (cases g) (simp_all add: Let_def)
    qed
  qed
qed

lemma thread_Star_single:
  assumes one: "steps a = one a"
    and K: "\<And>b c t. accepts a c \<Longrightarrow> K (b, c # t, cs) = []"
  shows "thread (Star g a) K (b, s, cs)
     = K (b \<and> takeWhile (accepts a) s = [], dropWhile (accepts a) s, cs)"
  using rep_loop_possessive [of a K cs s "length s" g b] K
  by (simp add: thread_def one)

lemma thread_Plus_single:
  assumes one: "steps a = one a"
    and K: "\<And>b c t. accepts a c \<Longrightarrow> K (b, c # t, cs) = []"
  shows "thread (Plus g a) K (b, s, cs)
     = (case s of [] \<Rightarrow> []
        | c # t \<Rightarrow> if accepts a c then K (False, dropWhile (accepts a) t, cs) else [])"
proof (cases s)
  case Nil
  then show ?thesis by (simp add: thread_def one)
next
  case (Cons c t)
  show ?thesis
  proof (cases "accepts a c")
    case True
    have "concat (map K (rep_loop g (one a) (length t) (False, t, cs)))
        = K (False, dropWhile (accepts a) t, cs)"
      using rep_loop_possessive [of a K cs t "length t" g False] K by simp
    with True Cons show ?thesis
      by (simp add: thread_def one)
  next
    case False
    with Cons show ?thesis by (simp add: thread_def one)
  qed
qed

text \<open>A capture group around such a repetition, before something that matches only at the
  end of the text.\<close>

lemma thread_group_to_end:
  assumes one: "steps a = one a"
    and Kend: "\<And>b c t cs'. Kend (b, c # t, cs') = []"
  shows "thread (Grp i (Seq (Plus g a) Eps)) Kend (b, s, cs)
     = (if s \<noteq> [] \<and> list_all (accepts a) s then Kend (False, [], cs[i - 1 := Some s]) else [])"
proof (cases s)
  case Nil
  then show ?thesis by (simp add: thread_def one)
next
  case (Cons c t)
  let ?K2 = "\<lambda>st'. Kend (capture i (b, s, cs) st')"
  have grp: "thread (Grp i (Seq (Plus g a) Eps)) Kend (b, s, cs) = thread (Plus g a) ?K2 (b, s, cs)"
    by (simp add: thread_Grp)
  have K2: "?K2 (b', x # u, cs) = []" for b' x u
    by (simp add: capture_def Kend)
  have "thread (Plus g a) ?K2 (b, s, cs)
      = (if accepts a c then ?K2 (False, dropWhile (accepts a) t, cs) else [])"
    using thread_Plus_single [OF one, of ?K2 cs g b s] K2 Cons by simp
  moreover have "?K2 (False, dropWhile (accepts a) t, cs)
      = (if list_all (accepts a) t then Kend (False, [], cs[i - 1 := Some s]) else [])"
  proof (cases "dropWhile (accepts a) t")
    case Nil
    then have "list_all (accepts a) t"
      by (simp add: list_all_iff)
    then show ?thesis
      unfolding Nil by (simp add: capture_def)
  next
    case (Cons y v)
    then have "\<not> list_all (accepts a) t"
      by (metis dropWhile_eq_Nil_conv list.distinct(1) list_all_iff)
    with Cons show ?thesis
      by (simp add: capture_def Kend)
  qed
  ultimately show ?thesis
    using Cons grp by simp
qed

subsection \<open>Invalidation by a pattern with a placeholder\<close>

lemma users_pattern:
  "Compile (fst (parsePattern (''[A-Z]+ '' @ ''/users/@name''))) = Inr users_clear_rx"
  by code_simp

lemma find_from_unanchored_none:
  "(\<And>s. match_here rx False s = None) \<Longrightarrow> find_from rx False s = None"
  by (induction s) simp_all

lemma find_from_anchored:
  "(\<And>s. match_here rx False s = None) \<Longrightarrow> find_from rx True s = match_here rx True s"
  by (cases s) (simp_all add: find_from_unanchored_none split: option.splits)

lemma match_string_anchored:
  assumes "\<And>s. match_here rx False s = None"
  shows "MatchString rx s = (steps (prog rx) (True, s, replicate (numcap rx) None) \<noteq> [])"
  by (simp add: MatchString_def find_from_anchored [OF assms] match_here_def split: list.splits)

lemma thread_lits:
  "length p = n \<Longrightarrow>
   thread (mkseq (map Lit p @ rs)) K (b, s, cs) =
     (if take n s = p then thread (mkseq rs) K (b \<and> p = [], drop n s, cs) else [])"
proof (induction p arbitrary: b s n)
  case Nil
  then show ?case by simp
next
  case (Cons x p)
  then obtain m where n: "n = Suc m" and m: "length p = m" by (cases n) auto
  show ?case
  proof (cases s)
    case Nil
    then show ?thesis using n by (simp add: mkseq_def)
  next
    case (Cons c t)
    with Cons.IH [OF m, of False t] n show ?thesis
      by (auto simp: mkseq_def)
  qed
qed

lemma in_range_single [simp]: "in_range c (x, x) \<longleftrightarrow> c = x"
proof -
  have "(of_char c :: nat) = of_char x \<longleftrightarrow> c = x"
    by (rule of_char_eq_iff)
  then show ?thesis by (auto simp: in_range_def)
qed

lemma accepts_upper [simp]: "accepts (Cls False [(CHR ''A'', CHR ''Z'')]) = is_upper"
  by (rule ext) (simp add: is_upper_def)

lemma accepts_not_slash [simp]:
  "accepts (Cls True [(CHR ''/'', CHR ''/'')]) = (\<lambda>c. c \<noteq> CHR ''/'')"
  by (rule ext) simp

lemma upper_not_blank: "is_upper c \<Longrightarrow> c \<noteq> CHR '' ''"
  by (auto simp: is_upper_def in_range_def)

lemma users_steps:
  "steps (prog users_clear_rx) (True, k, [None]) \<noteq> [] \<longleftrightarrow> users_key k"
proof (cases k)
  case Nil
  then show ?thesis
    by (simp add: users_clear_rx_def steps_thread mkseq_def users_key_def thread_def)
next
  case (Cons c t)
  let ?U = "Cls False [(CHR ''A'', CHR ''Z'')]"
  let ?N = "Cls True [(CHR ''/'', CHR ''/'')]"
  let ?G = "Grp 1 (mkseq [Plus True ?N])"
  let ?K = "thread (mkseq (map Lit '' /users/'' @ [?G, Eol])) (\<lambda>x. [x])"
  have len: "length '' /users/'' = 8" by simp
  have K_eq: "?K (b, s, [None])
      = (if take 8 s = '' /users/''
         then thread (mkseq [?G, Eol]) (\<lambda>x. [x]) (False, drop 8 s, [None]) else [])" for b s
    using thread_lits [OF len, of "[?G, Eol]" "\<lambda>x. [x]" b s "[None]"] by simp
  have K: "?K (b, x # u, [None]) = []" if "is_upper x" for b x u
    unfolding K_eq using upper_not_blank [OF that] by simp
  have plus: "thread (Plus True ?U) ?K (True, c # t, [None])
      = (if is_upper c then ?K (False, dropWhile is_upper t, [None]) else [])"
    using thread_Plus_single [of ?U ?K "[None]" True True "c # t"] K
    by simp
  have "thread (mkseq [?G, Eol]) (\<lambda>x. [x]) (False, s, [None])
      = thread (Grp 1 (Seq (Plus True ?N) Eps)) (thread Eol (\<lambda>x. [x])) (False, s, [None])" for s
    by (simp add: mkseq_def)
  also have "\<dots> s = (if s \<noteq> [] \<and> list_all (\<lambda>c. c \<noteq> CHR ''/'') s then [(False, [], [Some s])] else [])" for s
    by (subst thread_group_to_end) simp_all
  finally have tail: "thread (mkseq [?G, Eol]) (\<lambda>x. [x]) (False, s, [None]) \<noteq> []
      \<longleftrightarrow> s \<noteq> [] \<and> CHR ''/'' \<notin> set s" for s
    by (auto simp: list_all_iff)
  have "steps (prog users_clear_rx) (True, k, [None])
      = thread (prog users_clear_rx) (\<lambda>x. [x]) (True, k, [None])"
    by (rule steps_thread)
  also have "\<dots> = thread (Plus True ?U) ?K (True, c # t, [None])"
    using Cons by (simp add: users_clear_rx_def mkseq_def)
  also have "\<dots> = (if is_upper c then ?K (False, dropWhile is_upper t, [None]) else [])"
    by (rule plus)
  finally have "steps (prog users_clear_rx) (True, k, [None]) \<noteq> []
      \<longleftrightarrow> is_upper c \<and> take 8 (dropWhile is_upper t) = '' /users/''
      \<and> drop 8 (dropWhile is_upper t) \<noteq> [] \<and> CHR ''/'' \<notin> set (drop 8 (dropWhile is_upper t))"
    using tail [of "drop 8 (dropWhile is_upper t)"] by (simp only: K_eq) auto
  also have "\<dots> \<longleftrightarrow> users_key k"
    using Cons by (auto simp: users_key_def Let_def)
  finally show ?thesis .
qed

lemma users_match: "MatchString users_clear_rx k = users_key k"
proof -
  have "match_here users_clear_rx False s = None" for s
    by (simp add: match_here_def users_clear_rx_def mkseq_def)
  from match_string_anchored [OF this] users_steps show ?thesis
    by (simp add: users_clear_rx_def)
qed

lemma users_key_iff:
  "users_key k \<longleftrightarrow>
     (\<exists>m seg. k = m @ '' /users/'' @ seg \<and> m \<noteq> [] \<and> (\<forall>c \<in> set m. is_upper c)
        \<and> seg \<noteq> [] \<and> CHR ''/'' \<notin> set seg)"
proof
  assume u: "users_key k"
  let ?m = "takeWhile is_upper k" and ?rest = "dropWhile is_upper k"
  have "k = ?m @ ?rest" by simp
  moreover have "?rest = '' /users/'' @ drop 8 ?rest"
    using u append_take_drop_id [of 8 ?rest] by (simp add: users_key_def Let_def)
  ultimately have "k = ?m @ '' /users/'' @ drop 8 ?rest" by metis
  moreover have "\<forall>c \<in> set ?m. is_upper c"
    by (auto dest: set_takeWhileD)
  ultimately show "\<exists>m seg. k = m @ '' /users/'' @ seg \<and> m \<noteq> [] \<and> (\<forall>c \<in> set m. is_upper c)
        \<and> seg \<noteq> [] \<and> CHR ''/'' \<notin> set seg"
    using u unfolding users_key_def Let_def by blast
next
  assume "\<exists>m seg. k = m @ '' /users/'' @ seg \<and> m \<noteq> [] \<and> (\<forall>c \<in> set m. is_upper c)
        \<and> seg \<noteq> [] \<and> CHR ''/'' \<notin> set seg"
  then obtain m seg where k: "k = m @ '' /users/'' @ seg" and m: "m \<noteq> []"
    "\<forall>c \<in> set m. is_upper c" and seg: "seg \<noteq> []" "CHR ''/'' \<notin> set seg"
    by blast
  have nb: "\<not> is_upper (CHR '' '')"
    by (simp add: is_upper_def in_range_def)
  have "takeWhile is_upper k = m" "dropWhile is_upper k = '' /users/'' @ seg"
    using m nb by (simp_all add: k)
  then show "users_key k"
    using m seg by (simp add: users_key_def)
qed

text \<open>
  C7. For every router, \<^verbatim>\<open>ClearCache("/users/@name")\<close> returns, and the request cache
  afterwards has lost exactly the keys made of one or more upper-case letters, a blank,
  \<^verbatim>\<open>/users/\<close> and one non-empty segment without a slash; every other entry is as it
  was. The entry of \<^verbatim>\<open>GET /users/doug\<close> goes, that of
  \<^verbatim>\<open>GET /users/doug/extra\<close> stays.
\<close>

theorem clear_cache_users:
  "\<exists>r'. ClearCache r ''/users/@name'' = Inr r'
     \<and> (\<forall>k. routeCache r' k =
           (if (\<exists>m seg. k = m @ '' /users/'' @ seg \<and> m \<noteq> [] \<and> (\<forall>c \<in> set m. is_upper c)
                  \<and> seg \<noteq> [] \<and> CHR ''/'' \<notin> set seg)
            then None else routeCache r k))
     \<and> routeCache r' ''GET /users/doug'' = None
     \<and> routeCache r' ''GET /users/doug/extra'' = routeCache r ''GET /users/doug/extra''"
proof -
  let ?r' = "r\<lparr>routeCache := delete_matching users_clear_rx (routeCache r),
               htmlCache := delete_matching users_clear_rx (htmlCache r)\<rparr>"
  have "ClearCache r ''/users/@name'' = Inr ?r'"
    using users_pattern by (simp add: ClearCache_def)
  moreover have "routeCache ?r' k =
           (if (\<exists>m seg. k = m @ '' /users/'' @ seg \<and> m \<noteq> [] \<and> (\<forall>c \<in> set m. is_upper c)
                  \<and> seg \<noteq> [] \<and> CHR ''/'' \<notin> set seg)
            then None else routeCache r k)" for k
    using users_key_iff [of k] by (simp add: delete_matching_def users_match)
  moreover have "users_key ''GET /users/doug''" "\<not> users_key ''GET /users/doug/extra''"
    by code_simp+
  then have "routeCache ?r' ''GET /users/doug'' = None"
    "routeCache ?r' ''GET /users/doug/extra'' = routeCache r ''GET /users/doug/extra''"
    by (simp_all add: delete_matching_def users_match)
  ultimately show ?thesis by blast
qed

theorem clear_cache_users_witness:
  "\<exists>r'. ClearCache (writeCache (writeCache example_router ''GET /users/doug''
              (route500 example_router)) ''GET /users/doug/extra'' (route404 example_router))
            ''/users/@name'' = Inr r'
     \<and> routeCache r' ''GET /users/doug'' = None
     \<and> routeCache r' ''GET /users/doug/extra'' = Some (route404 example_router)"
  using clear_cache_users [of "writeCache (writeCache example_router ''GET /users/doug''
              (route500 example_router)) ''GET /users/doug/extra'' (route404 example_router)"]
  by (auto simp: writeCache_def)

subsection \<open>Directory routes\<close>

lemma lex_plain:
  "list_all plain_char p \<Longrightarrow> lex (p @ s) = map (\<lambda>c. TAtom (atom c)) p @ lex s"
  by (induction p) (auto simp: plain_char_def atom_def)

lemma parse_atoms:
  "parse_toks (map (\<lambda>c. TAtom (atom c)) p @ ts) ((cap, alts, cur) # stk, n, pk)
     = parse_toks ts ((cap, alts, rev (map atom p) @ cur) # stk, n, if p = [] then pk else PNone)"
  by (induction p arbitrary: cur pk) simp_all

lemma lex_dir_tail:
  "lex ''(?:/?(.+))?$'' = [TOpen False, TAtom (Lit (CHR ''/'')), TQuest, TOpen True, TAtom Dot,
      TPlus, TClose, TClose, TQuest, TAtom Eol]"
  by code_simp

lemma compile_dir:
  assumes "list_all plain_char p"
  shows "Compile (''^'' @ p @ ''(?:/?(.+))?$'') = Inr (dir_rx p)"
proof -
  have "lex (''^'' @ p @ ''(?:/?(.+))?$'')
      = TAtom Bol # map (\<lambda>c. TAtom (atom c)) p @ lex ''(?:/?(.+))?$''"
    using lex_plain [OF assms, of "''(?:/?(.+))?$''"] by (simp add: bs_def)
  then show ?thesis
    unfolding Compile_def lex_dir_tail
    by (simp add: parse_atoms apply_rep_def close_frame_def dir_rx_def mkseq_def)
qed

lemma plain_strip: "list_all plain_char s \<Longrightarrow> list_all plain_char (strip_slash s)"
  by (auto simp: strip_slash_def list_all_iff dest: in_set_takeD)

lemma plain_not_at: "plain_char c \<Longrightarrow> c \<noteq> CHR ''@''"
  by (auto simp: plain_char_def)

lemma strip_dir_tail: "strip_slash (p @ ''(?:/?@@path)?'') = p @ ''(?:/?@@path)?''"
  by (simp add: strip_slash_def HasSuffix_def)

lemma contains_append: "Contains t sub \<Longrightarrow> Contains (p @ t) sub"
  by (induction p) simp_all

lemma contains_dir_tail: "Contains (p @ ''(?:/?@@path)?'') ''@''"
  by (rule contains_append) code_simp

lemma placeholder_no_match:
  "c \<noteq> CHR ''@'' \<Longrightarrow> match_here placeholder_rx b (c # s) = None"
  by (simp add: match_here_def placeholder_rx_def)

lemma find_all_skip:
  "list_all (\<lambda>c. c \<noteq> CHR ''@'') p \<Longrightarrow>
   find_all placeholder_rx b 0 pf (p @ t)
     = find_all placeholder_rx (b \<and> p = []) 0 (pf \<and> p = []) t"
proof (induction p arbitrary: b pf)
  case Nil
  then show ?case by simp
next
  case (Cons c p)
  then show ?case by (simp add: placeholder_no_match)
qed

lemma find_all_dir_tail:
  "find_all placeholder_rx b 0 pf ''(?:/?@@path)?'' = [[''@@path)'', ''path'']]"
  by (cases b; cases pf) code_simp+

lemma find_placeholders_dir:
  assumes "list_all plain_char p"
  shows "FindAllStringSubmatch placeholder_rx (p @ ''(?:/?@@path)?'') = [[''@@path)'', ''path'']]"
proof -
  have "list_all (\<lambda>c. c \<noteq> CHR ''@'') p"
    using assms by (auto simp: list_all_iff dest: plain_not_at)
  then show ?thesis
    by (simp only: FindAllStringSubmatch_def find_all_skip find_all_dir_tail)
qed

lemma Replace1_skip:
  "list_all (\<lambda>c. c \<noteq> x) p \<Longrightarrow> Replace1 (p @ t) (x # old) new = p @ Replace1 t (x # old) new"
  by (induction p) (simp_all add: HasPrefix_def)

lemma replace_dir_tail:
  "Replace1 ''(?:/?@@path)?'' ''@@path'' ''(.+)'' = ''(?:/?(.+))?''"
  "Replace1 ''(?:/?(.+))?'' ''@path'' ''([^/]+)'' = ''(?:/?(.+))?''"
  by code_simp+

lemma parsePattern_dir:
  assumes "list_all plain_char s"
  shows "parsePattern (Dir s) = (''^'' @ strip_slash s @ ''(?:/?(.+))?$'', [''path''])"
proof -
  let ?p = "strip_slash s"
  have p: "list_all plain_char ?p" by (rule plain_strip [OF assms])
  then have at: "list_all (\<lambda>c. c \<noteq> CHR ''@'') ?p"
    by (auto simp: list_all_iff dest: plain_not_at)
  have r1: "Replace1 (?p @ ''(?:/?@@path)?'') ''@@path'' ''(.+)'' = ?p @ ''(?:/?(.+))?''"
    using Replace1_skip [OF at, of "''(?:/?@@path)?''" "''@path''" "''(.+)''"]
    by (simp only: replace_dir_tail)
  have r2: "Replace1 (?p @ ''(?:/?(.+))?'') ''@path'' ''([^/]+)'' = ?p @ ''(?:/?(.+))?''"
    using Replace1_skip [OF at, of "''(?:/?(.+))?''" "''path''" "''([^/]+)''"]
    by (simp only: replace_dir_tail)
  have "foldl replace_placeholder (?p @ ''(?:/?@@path)?'', []) [[''@@path)'', ''path'']]
      = (?p @ ''(?:/?(.+))?'', [''path''])"
    using r1 r2 by (simp add: replace_placeholder_def)
  then show ?thesis
    unfolding parsePattern_def Dir_def strip_dir_tail Let_def
    using contains_dir_tail [of ?p] find_placeholders_dir [OF p]
    by simp
qed

lemma accepts_atom_self [simp]: "accepts (atom c) c"
  by (simp add: atom_def lf_def)

lemma steps_atom: "steps (atom c) = one (atom c)"
  by (simp add: atom_def)

lemma thread_atom:
  "thread (atom c) K (b, c # s, cs) = K (False, s, cs)"
  by (simp add: thread_def steps_atom)

lemma thread_atoms:
  "thread (mkseq (map atom p @ rs)) K (b, p @ s, cs)
     = thread (mkseq rs) K (b \<and> p = [], s, cs)"
proof (induction p arbitrary: b)
  case Nil
  then show ?case by simp
next
  case (Cons c p)
  have "thread (mkseq (map atom (c # p) @ rs)) K (b, (c # p) @ s, cs)
      = thread (atom c) (thread (mkseq (map atom p @ rs)) K) (b, c # (p @ s), cs)"
    by (simp add: mkseq_def)
  also have "\<dots> = thread (mkseq (map atom p @ rs)) K (False, p @ s, cs)"
    by (rule thread_atom)
  finally show ?case
    using Cons.IH [of False] by simp
qed

lemma dir_rx_unanchored: "match_here (dir_rx p) False s = None"
  by (simp add: match_here_def dir_rx_def mkseq_def)

lemma dir_steps:
  "steps (prog (dir_rx p)) (True, p @ s, [None])
     = thread (mkseq [Opt True (mkseq [Opt True (Lit (CHR ''/'')), Grp 1 (mkseq [Plus True Dot])]),
          Eol]) (\<lambda>x. [x]) (p = [], s, [None])"
proof -
  have "steps (prog (dir_rx p)) (True, p @ s, [None])
      = thread (prog (dir_rx p)) (\<lambda>x. [x]) (True, p @ s, [None])"
    by (rule steps_thread)
  also have "\<dots> = thread (mkseq (map atom p
        @ [Opt True (mkseq [Opt True (Lit (CHR ''/'')), Grp 1 (mkseq [Plus True Dot])]), Eol]))
      (\<lambda>x. [x]) (True, p @ s, [None])"
    by (simp add: dir_rx_def mkseq_def)
  finally show ?thesis
    by (simp only: thread_atoms simp_thms)
qed

lemma group_dot_end:
  "thread (Grp (Suc 0) (Seq (Plus True Dot) Eps)) (thread Eol (\<lambda>x. [x])) (b, s, [None])
     = (if s \<noteq> [] \<and> lf \<notin> set s then [(False, [], [Some s])] else [])"
  by (subst thread_group_to_end) (auto simp: list_all_iff)

lemma dir_steps_bare: "steps (prog (dir_rx p)) (True, p, [None]) = [(p = [], [], [None])]"
  using dir_steps [of p "[]"] by (simp add: mkseq_def group_dot_end)

lemma dir_steps_deep:
  assumes "d \<noteq> []" "lf \<notin> set d"
  shows "steps (prog (dir_rx p)) (True, p @ ''/'' @ d, [None])
     = [(False, [], [Some d]), (False, [], [Some (''/'' @ d)])]"
  using dir_steps [of p "''/'' @ d"] assms by (simp add: mkseq_def group_dot_end lf_def)

lemma numcap_dir: "replicate (numcap (dir_rx p)) None = [None]"
  by (simp add: dir_rx_def)

lemma dir_find_bare: "find_from (dir_rx p) True p = Some (p, [[]])"
proof -
  have "find_from (dir_rx p) True p = match_here (dir_rx p) True p"
    by (rule find_from_anchored [OF dir_rx_unanchored])
  also have "\<dots> = Some (p, [[]])"
    by (simp add: match_here_def numcap_dir dir_steps_bare)
  finally show ?thesis .
qed

lemma dir_find_deep:
  assumes "d \<noteq> []" "lf \<notin> set d"
  shows "find_from (dir_rx p) True (p @ ''/'' @ d) = Some (p @ ''/'' @ d, [d])"
proof -
  have "find_from (dir_rx p) True (p @ ''/'' @ d) = match_here (dir_rx p) True (p @ ''/'' @ d)"
    by (rule find_from_anchored [OF dir_rx_unanchored])
  also have "\<dots> = Some (p @ ''/'' @ d, [d])"
    using dir_steps_deep [OF assms, of p] by (simp add: match_here_def numcap_dir)
  finally show ?thesis .
qed

lemma find_all_first:
  assumes "match_here rx b s = Some (w, caps)"
  shows "\<exists>rest. find_all rx b 0 False s = (w # caps) # rest"
  using assms by (cases s) auto

lemma find_all_anchored_first:
  assumes "\<And>s. match_here rx False s = None"
    and "find_from rx True s = Some (w, caps)"
  shows "\<exists>rest. FindAllStringSubmatch rx s = (w # caps) # rest"
  unfolding FindAllStringSubmatch_def
  using find_all_first [of rx True s w caps] assms(2) find_from_anchored [OF assms(1), of s]
  by simp

lemma extract_path:
  assumes "find_from (dir_rx p) True url = Some (url, [v])"
  shows "extract_params \<lparr>pattern = Some (dir_rx p), callback = cb, params = [''path''],
      route_method = mthd\<rparr> url = Inr [''path'' \<mapsto> v]"
proof -
  obtain rest where "FindAllStringSubmatch (dir_rx p) url = (url # [v]) # rest"
    using find_all_anchored_first [OF dir_rx_unanchored assms] by blast
  then show ?thesis
    by (simp add: extract_params_def)
qed

lemma createRoute_dir:
  assumes "list_all plain_char s"
  shows "Compile (fst (parsePattern (Dir s))) = Inr (dir_rx (strip_slash s))"
    and "snd (parsePattern (Dir s)) = [''path'']"
    and "createRoute r (Dir s) cb mthd False
      = Inr (r\<lparr>routes := routes r @ [\<lparr>pattern = Some (dir_rx (strip_slash s)), callback = cb,
           params = [''path''], route_method = mthd\<rparr>]\<rparr>)"
  using compile_dir [OF plain_strip [OF assms]] parsePattern_dir [OF assms]
  by (simp_all add: createRoute_def)

text \<open>
  C9, as amended. For every mount prefix \<open>s\<close>, the route string \<open>Dir s\<close> has the one
  parameter \<^verbatim>\<open>path\<close> and compiles; the matcher accepts the prefix (without its
  trailing slash) and the prefix followed by a slash and any non-empty deeper path
  without a line feed, and the value of \<^verbatim>\<open>path\<close> is then the deeper path, without
  the slash before it.
\<close>

theorem dir_route_matches:
  assumes "list_all plain_char s" and "d \<noteq> []" and "lf \<notin> set d"
  shows "\<exists>rx. Compile (fst (parsePattern (Dir s))) = Inr rx
     \<and> snd (parsePattern (Dir s)) = [''path'']
     \<and> createRoute r (Dir s) cb mthd False
         = Inr (r\<lparr>routes := routes r @ [\<lparr>pattern = Some rx, callback = cb,
              params = [''path''], route_method = mthd\<rparr>]\<rparr>)
     \<and> MatchString rx (strip_slash s)
     \<and> MatchString rx (strip_slash s @ ''/'' @ d)
     \<and> extract_params \<lparr>pattern = Some rx, callback = cb, params = [''path''], route_method = mthd\<rparr>
           (strip_slash s @ ''/'' @ d) = Inr [''path'' \<mapsto> d]"
proof -
  let ?p = "strip_slash s"
  have "MatchString (dir_rx ?p) ?p"
    by (simp add: MatchString_def dir_find_bare)
  moreover have "MatchString (dir_rx ?p) (?p @ ''/'' @ d)"
    using dir_find_deep [OF assms(2,3), of ?p] by (simp add: MatchString_def)
  moreover have "extract_params \<lparr>pattern = Some (dir_rx ?p), callback = cb, params = [''path''],
      route_method = mthd\<rparr> (?p @ ''/'' @ d) = Inr [''path'' \<mapsto> d]"
    by (rule extract_path [OF dir_find_deep [OF assms(2,3)]])
  ultimately show ?thesis
    using createRoute_dir [OF assms(1)] by blast
qed

lemma assets_plain: "list_all plain_char ''/assets''"
  by code_simp

lemma assets_strip: "strip_slash ''/assets'' = ''/assets''"
  by code_simp

theorem dir_route_matches_witness:
  "\<exists>rx. Compile (fst (parsePattern (Dir ''/assets''))) = Inr rx
     \<and> snd (parsePattern (Dir ''/assets'')) = [''path'']
     \<and> MatchString rx ''/assets''
     \<and> MatchString rx ''/assets/x/y''
     \<and> extract_params \<lparr>pattern = Some rx, callback = StaticDirHandler ''./static'',
           params = [''path''], route_method = ''GET''\<rparr> ''/assets/x/y'' = Inr [''path'' \<mapsto> ''x/y'']"
proof -
  have d: "''x/y'' \<noteq> []" "lf \<notin> set ''x/y''"
    by (simp_all add: lf_def)
  from dir_route_matches [OF assets_plain d, of "NewRouter (bare_world (\<lambda>v. []))"
      "StaticDirHandler ''./static''" "''GET''"]
  show ?thesis
    by (auto simp: assets_strip)
qed

text \<open>
  The deeper path cannot hold a line feed: the wildcard is \<^verbatim>\<open>(.+)\<close>, and a dot does
  not match a line feed.
\<close>

theorem dir_rejects_line_feed:
  "Compile (fst (parsePattern (Dir ''/assets''))) = Inr (dir_rx ''/assets'')
   \<and> \<not> MatchString (dir_rx ''/assets'') (''/assets/x'' @ [lf] @ ''y'')"
  by code_simp

lemma join_root_index: "Join [''/'', ''index.html''] = ''/index.html''"
  by code_simp

lemma StaticDir_root:
  assumes "Params d ''path'' = Some []"
    and "StaticDir n w r dir d = Some (d', r', out)"
  shows "URLPath d' = ''/'' \<or> URLPath d' = ''/index.html''"
proof -
  have "URLPath (index_path w r dir (rewrite_path d)) = ''/''
      \<or> URLPath (index_path w r dir (rewrite_path d)) = ''/index.html''"
    using assms(1) by (simp add: index_path_def rewrite_path_def join_root_index)
  moreover have "d' = index_path w r dir (rewrite_path d)"
    using assms(2) by (auto simp: StaticDir_def Let_def split: if_splits)
  ultimately show ?thesis by simp
qed

text \<open>
  C10. For every mount prefix \<open>s\<close> and the route of \<open>Dir s\<close>, a request for the bare
  prefix matches, and \<open>callRoute\<close> hands the handler parameters in which \<^verbatim>\<open>path\<close>
  is present and bound to the empty string. \<open>StaticDir\<close> therefore replaces the request
  path, which was the prefix, by \<^verbatim>\<open>/\<close>, and goes on with \<^verbatim>\<open>/\<close> or with the
  index document of the root.
\<close>

theorem bare_prefix_binds_empty_path:
  assumes "list_all plain_char s"
  shows "\<exists>rx d. Compile (fst (parsePattern (Dir s))) = Inr rx
     \<and> MatchString rx (strip_slash s)
     \<and> callRoute r \<lparr>pattern = Some rx, callback = cb, params = snd (parsePattern (Dir s)),
          route_method = mthd\<rparr> (strip_slash s) mthd = Inr d
     \<and> Params d = [''path'' \<mapsto> []]
     \<and> URLPath d = strip_slash s
     \<and> URLPath (rewrite_path d) = ''/''
     \<and> (\<forall>n w dir d' r' out. StaticDir n w r dir d = Some (d', r', out)
            \<longrightarrow> URLPath d' = ''/'' \<or> URLPath d' = ''/index.html'')"
proof -
  let ?p = "strip_slash s"
  let ?rt = "\<lparr>pattern = Some (dir_rx ?p), callback = cb, params = [''path''], route_method = mthd\<rparr>"
  have "extract_params ?rt ?p = Inr [''path'' \<mapsto> []]"
    by (rule extract_path [OF dir_find_bare])
  then obtain d where d: "callRoute r ?rt ?p mthd = Inr d" "Params d = [''path'' \<mapsto> []]"
      "URLPath d = ?p"
    by (simp add: callRoute_def)
  then have path: "Params d ''path'' = Some []"
    by simp
  then have "URLPath (rewrite_path d) = ''/''"
    by (simp add: rewrite_path_def)
  moreover have "\<forall>n w dir d' r' out. StaticDir n w r dir d = Some (d', r', out)
            \<longrightarrow> URLPath d' = ''/'' \<or> URLPath d' = ''/index.html''"
    using StaticDir_root [OF path] by blast
  moreover note d
  moreover have "MatchString (dir_rx ?p) ?p"
    by (simp add: MatchString_def dir_find_bare)
  ultimately show ?thesis
    using createRoute_dir(1,2) [OF assms] by auto
qed

theorem bare_prefix_binds_empty_path_witness:
  "\<exists>rx d. Compile (fst (parsePattern (Dir ''/assets''))) = Inr rx
     \<and> MatchString rx ''/assets''
     \<and> callRoute (NewRouter (bare_world (\<lambda>v. []))) \<lparr>pattern = Some rx,
          callback = StaticDirHandler ''./static'', params = snd (parsePattern (Dir ''/assets'')),
          route_method = ''GET''\<rparr> ''/assets'' ''GET'' = Inr d
     \<and> Params d = [''path'' \<mapsto> []]
     \<and> URLPath d = ''/assets''
     \<and> URLPath (rewrite_path d) = ''/''"
  using bare_prefix_binds_empty_path [OF assets_plain, of "NewRouter (bare_world (\<lambda>v. []))"
      "StaticDirHandler ''./static''" "''GET''"]
  unfolding assets_strip by blast

subsection \<open>Invalidation by a literal path\<close>

lemma plain_no_at: "list_all plain_char q \<Longrightarrow> \<not> Contains (q @ t) ''@'' \<longleftrightarrow> \<not> Contains t ''@''"
  by (induction q) (auto simp: HasPrefix_def plain_char_def)

lemma lex_clear_head:
  "lex (''^[A-Z]+ '' @ s) = TAtom Bol # TAtom (Cls False [(CHR ''A'', CHR ''Z'')]) # TPlus
      # TAtom (Lit (CHR '' '')) # lex s"
  by (simp add: bs_def HasPrefix_def class_bad_def)

lemma lex_end: "lex ''$'' = [TAtom Eol]"
  by code_simp

lemma compile_clear:
  assumes "list_all plain_char q"
  shows "Compile (''^'' @ (''[A-Z]+ '' @ q) @ ''$'') = Inr (clear_rx q)"
proof -
  have "lex (''^'' @ (''[A-Z]+ '' @ q) @ ''$'')
      = TAtom Bol # TAtom (Cls False [(CHR ''A'', CHR ''Z'')]) # TPlus
          # TAtom (Lit (CHR '' '')) # map (\<lambda>c. TAtom (atom c)) q @ [TAtom Eol]"
    using lex_clear_head [of "q @ ''$''"] lex_plain [OF assms, of "''$''"] lex_end
    by simp
  then show ?thesis
    unfolding Compile_def
    by (simp add: parse_atoms apply_rep_def close_frame_def clear_rx_def mkseq_def)
qed

lemma strip_clear:
  "strip_slash (''[A-Z]+ '' @ p) = ''[A-Z]+ '' @ (if HasSuffix p ''/'' then butlast p else p)"
  by (cases p rule: rev_cases) (auto simp: strip_slash_def HasSuffix_def)

lemma parsePattern_clear:
  assumes "list_all plain_char p"
  shows "\<exists>q. list_all plain_char q
     \<and> parsePattern (''[A-Z]+ '' @ p) = (''^'' @ (''[A-Z]+ '' @ q) @ ''$'', [])"
proof -
  let ?q = "if HasSuffix p ''/'' then butlast p else p"
  have q: "list_all plain_char ?q"
    using assms by (auto simp: list_all_iff dest: in_set_butlastD)
  have "\<not> Contains (''[A-Z]+ '' @ ?q) ''@''"
    using plain_no_at [OF q, of "[]"] by (simp add: HasPrefix_def)
  then have "parsePattern (''[A-Z]+ '' @ p) = (''^'' @ (''[A-Z]+ '' @ ?q) @ ''$'', [])"
    unfolding parsePattern_def strip_clear by (simp add: Let_def)
  with q show ?thesis by blast
qed

lemma clear_rx_needs_method:
  assumes "k = [] \<or> \<not> is_upper (hd k)"
  shows "\<not> MatchString (clear_rx q) k"
proof -
  have un: "match_here (clear_rx q) False s = None" for s
    by (simp add: match_here_def clear_rx_def mkseq_def)
  have "steps (prog (clear_rx q)) (True, k, []) = []"
    using assms by (cases k) (simp_all add: clear_rx_def mkseq_def thread_def is_upper_def)
  moreover have "numcap (clear_rx q) = 0"
    by (simp add: clear_rx_def)
  ultimately show ?thesis
    by (simp add: match_string_anchored [OF un])
qed

text \<open>
  For every literal path, \<open>ClearCache\<close> keeps every entry whose key does not begin with
  an upper-case letter: every entry of the document cache that is keyed by a path with a
  leading slash.
\<close>

lemma clear_cache_literal_keeps_paths:
  assumes "list_all plain_char p" and "k = [] \<or> \<not> is_upper (hd k)"
  shows "\<exists>r'. ClearCache r p = Inr r' \<and> htmlCache r' k = htmlCache r k
     \<and> routeCache r' k = routeCache r k"
proof -
  obtain q where q: "list_all plain_char q"
      "parsePattern (''[A-Z]+ '' @ p) = (''^'' @ (''[A-Z]+ '' @ q) @ ''$'', [])"
    using parsePattern_clear [OF assms(1)] by blast
  have "ClearCache r p = Inr (r\<lparr>routeCache := delete_matching (clear_rx q) (routeCache r),
      htmlCache := delete_matching (clear_rx q) (htmlCache r)\<rparr>)"
    using compile_clear [OF q(1)] q(2) by (simp add: ClearCache_def)
  then show ?thesis
    using clear_rx_needs_method [OF assms(2), of q] by (simp add: delete_matching_def)
qed

text \<open>
  The path \<^verbatim>\<open>/\<close> loses its slash when \<open>ClearCache\<close> compiles it, since the string
  it hands to \<open>parsePattern\<close> is not \<^verbatim>\<open>/\<close> itself. After
  \<^verbatim>\<open>RemoveRoute("/")\<close> the entry of \<^verbatim>\<open>GET /\<close> is still cached, and the next
  request is answered by the route that was removed.
\<close>

lemma clear_cache_root:
  "fst (parsePattern (''[A-Z]+ '' @ ''/'')) = ''^[A-Z]+ $''"
  by code_simp

lemma remove_root_keeps_cache_entry:
  "(case register (NewRouter w) [(''GET'', ''/'', UserHandler 1)] of
      Inl e \<Rightarrow> False
    | Inr r0 \<Rightarrow>
        (case ServeHTTP (r0\<lparr>noCache := False\<rparr>) ''GET'' ''/'' of
           Inl e \<Rightarrow> False
         | Inr (r1, rt1, b1) \<Rightarrow>
             (case RemoveRoute r1 ''/'' of
                Inl e \<Rightarrow> False
              | Inr r2 \<Rightarrow>
                  routes r2 = []
                  \<and> (case ServeHTTP r2 ''GET'' ''/'' of
                        Inl e \<Rightarrow> False
                      | Inr (r3, rt3, b3) \<Rightarrow> callback rt3 = UserHandler 1 \<and> b3 = CacheHit))))"
  by code_simp

end
